theory Spec2Isabelle
  imports Main "HOL-Library.AList"
begin

section \<open>Values, user code and the node graph\<close>

text \<open>
  JavaScript values as far as the library looks at them. Arrays and objects carry the
  reference they were allocated at; \<open>same_ref\<close> below compares them by that reference.
  A function value is either a user function (an index into the table of function
  bodies, with the values it captured) or one of the bound functions the facade hands
  out: \<^verbatim>\<open>read.bind(node)\<close>, \<^verbatim>\<open>write.bind(node)\<close>, \<^verbatim>\<open>dispose.bind(node, b)\<close> and the
  development-mode \<^verbatim>\<open>stopEffect\<close> closure of \<^verbatim>\<open>createEffect\<close>.
\<close>

datatype val =
    Undefined
  | Null
  | Num int
  | Str string
  | Arr nat "val list"
  | Obj nat "(string \<times> val) list"
  | Closure nat "val list"
  | BoundRead nat
  | BoundWrite nat
  | BoundDispose nat bool
  | StopEffect nat

text \<open>\<^verbatim>\<open>isFunction\<close> of \<^verbatim>\<open>./core\<close>: \<^verbatim>\<open>typeof v === 'function'\<close>.\<close>

text \<open>
  Reference equality (\<^verbatim>\<open>===\<close>): two arrays or objects are the same when they were
  allocated at the same reference, whatever they hold; other values are compared as
  they are.
\<close>

fun ref_of :: "val \<Rightarrow> nat option" where
  "ref_of (Arr r xs) = Some r"
| "ref_of (Obj r fs) = Some r"
| "ref_of v = None"

definition same_ref :: "val \<Rightarrow> val \<Rightarrow> bool" where
  "same_ref a b = (case ref_of a of Some r \<Rightarrow> ref_of b = Some r | None \<Rightarrow> a = b)"

fun isFunction :: "val \<Rightarrow> bool" where
  "isFunction (Closure c env) = True"
| "isFunction (BoundRead n) = True"
| "isFunction (BoundWrite n) = True"
| "isFunction (BoundDispose n b) = True"
| "isFunction (StopEffect n) = True"
| "isFunction v = False"

text \<open>
  User code (effect bodies, memo computations, mapping functions, cleanups) is a tree
  of calls into the library; each call hands its result to the rest of the body.
\<close>

datatype prog =
    Return val
  | Call val "val list" "val \<Rightarrow> prog"
  | OnDispose val prog
  | New "nat \<Rightarrow> val" "val \<Rightarrow> prog"
  | CreateSignal val "val \<Rightarrow> val \<Rightarrow> prog"
  | CreateMemo val "val \<Rightarrow> prog"
  | CreateEffect val "val \<Rightarrow> prog"
  | MapArray val val "val option" "val \<Rightarrow> prog"
  | FlushSync prog

text \<open>
  The options of a node: the \<^verbatim>\<open>id\<close> of development mode, the \<^verbatim>\<open>initial\<close> value of a
  memo, and the configured equality check, an index into the table of equality checks
  of the environment.
\<close>

record options =
  opt_id :: "string option"
  opt_initial :: "val option"
  opt_equals :: "nat option"

text \<open>
  What a node computes: a user function (\<^verbatim>\<open>createMemo\<close>), the \<^verbatim>\<open>runEffect\<close> closure
  of \<^verbatim>\<open>createEffect\<close> over its effect, the reconciliation of a keyed mapper over
  (source, mapFn, key option), or one mapped item over (mapFn, item, index signal).
\<close>

datatype comp =
    Fn val
  | RunEffect val
  | MapArrayC val val "val option"
  | MapChild val val nat

record node =
  n_value :: val
  n_stale :: bool
  n_compute :: "comp option"
  n_sources :: "nat list"
  n_observers :: "nat list"
  n_disposed :: bool
  n_cleanups :: "val list"
  n_effect :: bool
  n_children :: "nat list"
  n_options :: "options option"

text \<open>
  Ghost events: \<open>Exec n\<close> when the compute function of node \<open>n\<close> is about to be
  invoked, \<open>Invoke f args\<close> when a function value is called, \<open>Disposed n\<close> when a node
  is marked disposed.
\<close>

datatype event = Exec nat | Invoke val "val list" | Disposed nat

record state =
  nodes :: "nat \<Rightarrow> node"
  next_node :: nat
  next_ref :: nat
  pending :: "nat list"
  flushing :: bool
  keyToChild :: "nat \<Rightarrow> (val \<times> nat \<times> nat) list"
  log :: "event list"

datatype error =
    DisposedAccessError
  | CyclicDependencyError
  | EffectExecutionError
  | TypeError
  | OutOfFuel

type_synonym 'a outcome = "(error + 'a) \<times> state"

text \<open>
  The environment of a run: the bodies of the user functions (given the captured
  values and the arguments), the build flag \<^verbatim>\<open>__DEV__\<close>, and the equality checks that
  options can configure (a check is a predicate on the old and the new value).
\<close>

record env =
  funs :: "nat \<Rightarrow> val list \<Rightarrow> val list \<Rightarrow> prog"
  dev :: bool
  equals :: "nat \<Rightarrow> val \<Rightarrow> val \<Rightarrow> bool"

definition fresh_node :: "val \<Rightarrow> comp option \<Rightarrow> options option \<Rightarrow> node" where
  "fresh_node initial compute opts =
     \<lparr> n_value = initial, n_stale = (compute \<noteq> None), n_compute = compute,
       n_sources = [], n_observers = [], n_disposed = False, n_cleanups = [],
       n_effect = False, n_children = [], n_options = opts \<rparr>"

definition init_state :: state where
  "init_state =
     \<lparr> nodes = (\<lambda>_. fresh_node Undefined None None), next_node = 0, next_ref = 0,
       pending = [], flushing = False, keyToChild = (\<lambda>_. []), log = [] \<rparr>"

definition upd_node :: "nat \<Rightarrow> (node \<Rightarrow> node) \<Rightarrow> state \<Rightarrow> state" where
  "upd_node n f s = s\<lparr>nodes := (nodes s)(n := f (nodes s n))\<rparr>"

definition emit :: "event \<Rightarrow> state \<Rightarrow> state" where
  "emit e s = s\<lparr>log := log s @ [e]\<rparr>"

definition arg0 :: "val list \<Rightarrow> val" where
  "arg0 args = (case args of [] \<Rightarrow> Undefined | a # _ \<Rightarrow> a)"

definition arg1 :: "val list \<Rightarrow> val" where
  "arg1 args = (case args of _ # b # _ \<Rightarrow> b | _ \<Rightarrow> Undefined)"

text \<open>Reading a property: \<^verbatim>\<open>v.name\<close>; a value without that property gives \<^verbatim>\<open>undefined\<close>.\<close>

fun getProp :: "string \<Rightarrow> val \<Rightarrow> val" where
  "getProp name (Obj r fs) = (case map_of fs name of None \<Rightarrow> Undefined | Some v \<Rightarrow> v)"
| "getProp name v = Undefined"

section \<open>Graph engine\<close>

text \<open>
  Modelled from the spec: \<^verbatim>\<open>createComputation\<close> of \<^verbatim>\<open>./core\<close>, which is not among
  the sources. A node starts with the given value; it is stale exactly when it has a
  compute function (section 4.2: a memo is stale initially, its first read runs it).
  A node created while a computation is executing is owned by that computation
  (section 4.1, dispose): \<open>ctx\<close> is the stack of active computations, innermost first.
  An entry \<open>None\<close> on the stack opens an untracked scope: what runs above it has no
  active computation to be owned by, to register cleanups with or to become a source
  of, while the computations below it still count as executing.
\<close>

definition createComputation ::
  "val \<Rightarrow> comp option \<Rightarrow> options option \<Rightarrow> nat option list \<Rightarrow> state \<Rightarrow> nat \<times> state" where
  "createComputation initial compute opts ctx s =
     (let n = next_node s;
          s1 = s\<lparr>nodes := (nodes s)(n := fresh_node initial compute opts),
                 next_node := Suc n\<rparr>
      in (n, (case ctx of
                Some owner # _ \<Rightarrow> upd_node owner (\<lambda>x. x\<lparr>n_children := n_children x @ [n]\<rparr>) s1
              | _ \<Rightarrow> s1)))"

text \<open>
  Modelled from the spec: \<^verbatim>\<open>onDispose\<close> of \<^verbatim>\<open>./core\<close> (section 4.1): registers the
  cleanup against the currently active computation, and does nothing when there is none.
\<close>

definition onDispose :: "val \<Rightarrow> nat option list \<Rightarrow> state \<Rightarrow> state" where
  "onDispose cleanup ctx s =
     (case ctx of
        Some n # _ \<Rightarrow> upd_node n (\<lambda>x. x\<lparr>n_cleanups := n_cleanups x @ [cleanup]\<rparr>) s
      | _ \<Rightarrow> s)"

text \<open>Dependency recording of \<^verbatim>\<open>read\<close>: the node read becomes a source of the active computation.\<close>

definition track :: "nat option list \<Rightarrow> nat \<Rightarrow> state \<Rightarrow> state" where
  "track ctx n s =
     (case ctx of
        Some c # _ \<Rightarrow>
          upd_node c (\<lambda>x. x\<lparr>n_sources := List.insert n (n_sources x)\<rparr>)
            (upd_node n (\<lambda>x. x\<lparr>n_observers := List.insert c (n_observers x)\<rparr>) s)
      | _ \<Rightarrow> s)"

text \<open>Before a recompute the node leaves the observer sets of all its sources.\<close>

definition detach :: "nat \<Rightarrow> state \<Rightarrow> state" where
  "detach n s =
     upd_node n (\<lambda>x. x\<lparr>n_sources := []\<rparr>)
       (fold (\<lambda>src. upd_node src (\<lambda>x. x\<lparr>n_observers := removeAll n (n_observers x)\<rparr>))
          (n_sources (nodes s n)) s)"

text \<open>A disposed node has neither sources nor observers (section 3, invariants).\<close>

definition unlink :: "nat \<Rightarrow> state \<Rightarrow> state" where
  "unlink n s =
     upd_node n (\<lambda>x. x\<lparr>n_observers := []\<rparr>)
       (fold (\<lambda>ob. upd_node ob (\<lambda>x. x\<lparr>n_sources := removeAll n (n_sources x)\<rparr>))
          (n_observers (nodes s n)) (detach n s))"

text \<open>
  Modelled from the spec: the change test of \<^verbatim>\<open>write\<close> (section 4.1): the new value
  counts as unchanged when the configured equality check accepts the pair, or, with
  no check configured, when it is reference-equal to the old value.
\<close>

definition unchanged :: "env \<Rightarrow> options option \<Rightarrow> val \<Rightarrow> val \<Rightarrow> bool" where
  "unchanged E opts old new =
     (case opts of
        None \<Rightarrow> same_ref old new
      | Some op \<Rightarrow> (case opt_equals op of None \<Rightarrow> same_ref old new | Some q \<Rightarrow> equals E q old new))"

text \<open>
  Modelled from the spec: staleness propagation of \<^verbatim>\<open>write\<close> (section 4.1). The
  observers are walked breadth-first; a computation that is not yet stale is marked
  (so each is marked once) and, when it is an effect, scheduled; its own observers
  join the end of the work list. The walk has fuel since the observer lists of an
  arbitrary state need not be well-founded.
\<close>

fun propagate :: "nat \<Rightarrow> nat list \<Rightarrow> state \<Rightarrow> state option" where
  "propagate k [] s = Some s"
| "propagate 0 (n # ns) s = None"
| "propagate (Suc k) (n # ns) s =
     (if n_stale (nodes s n) \<or> n_disposed (nodes s n) \<or> n_compute (nodes s n) = None
      then propagate k ns s
      else propagate k (ns @ n_observers (nodes s n))
             ((upd_node n (\<lambda>x. x\<lparr>n_stale := True\<rparr>) s)
                \<lparr>pending := (if n_effect (nodes s n) then pending s @ [n] else pending s)\<rparr>))"

section \<open>Computation facade (\<^verbatim>\<open>src/wip/signals.ts\<close>)\<close>

text \<open>
  \<^verbatim>\<open>createSignal(initialValue, options)\<close>: a node without a compute function, and the
  pair of \<^verbatim>\<open>read\<close> and \<^verbatim>\<open>write\<close> bound to it.
\<close>

definition createSignal ::
  "val \<Rightarrow> options option \<Rightarrow> nat option list \<Rightarrow> state \<Rightarrow> (val \<times> val) \<times> state" where
  "createSignal initialValue opts ctx s =
     (case createComputation initialValue None opts ctx s of
        (node, s1) \<Rightarrow> ((BoundRead node, BoundWrite node), s1))"

text \<open>
  \<^verbatim>\<open>createMemo(compute, options)\<close>: \<^verbatim>\<open>read\<close> bound to a node whose initial value is
  \<^verbatim>\<open>options?.initial\<close>.
\<close>

definition createMemo ::
  "val \<Rightarrow> options option \<Rightarrow> nat option list \<Rightarrow> state \<Rightarrow> val \<times> state" where
  "createMemo compute opts ctx s =
     (case createComputation
             (case opts of None \<Rightarrow> Undefined
              | Some op \<Rightarrow> (case opt_initial op of None \<Rightarrow> Undefined | Some v \<Rightarrow> v))
             (Some (Fn compute)) opts ctx s of
        (node, s1) \<Rightarrow> (BoundRead node, s1))"

text \<open>
  The options \<^verbatim>\<open>createEffect\<close> passes on in development mode:
  \<^verbatim>\<open>{ id: options?.id ?? "effect" }\<close>.
\<close>

definition effect_options :: "options option \<Rightarrow> options" where
  "effect_options opts =
     \<lparr> opt_id = Some (case opts of None \<Rightarrow> ''effect''
                      | Some op \<Rightarrow> (case opt_id op of None \<Rightarrow> ''effect'' | Some i \<Rightarrow> i)),
       opt_initial = None, opt_equals = None \<rparr>"

text \<open>
  Modelled from the spec: \<^verbatim>\<open>mapArray(source, mapFn, options)\<close> (section 4.3) is a memo
  over the reconciliation, with an empty table of children.
\<close>

definition mapArray ::
  "val \<Rightarrow> val \<Rightarrow> val option \<Rightarrow> nat option list \<Rightarrow> state \<Rightarrow> val \<times> state" where
  "mapArray source mapFn key ctx s =
     (case createComputation Undefined (Some (MapArrayC source mapFn key)) None ctx s of
        (m, s1) \<Rightarrow> (BoundRead m, s1\<lparr>keyToChild := (keyToChild s1)(m := [])\<rparr>))"

text \<open>
  The engine and the facade call each other and user code, so they are the cases of
  one recursive function over the operation to perform. The loops over lists hand
  their lists back wrapped in \<open>Arr 0\<close>.
\<close>

datatype task =
    RunP prog
  | CallF val "val list"
  | ReadN nat
  | RecomputeN nat
  | InvokeC nat comp
  | RunEffectF val
  | WriteN nat val
  | AssignN nat val
  | FlushP "error option"
  | FlushSyncP
  | DisposeN nat bool
  | DisposeAll "nat list"
  | RunAll "val list"
  | CreateEffectF val "options option"
  | Reconcile nat val val "val option"
  | MapItems nat val "val option" "(val \<times> nat \<times> nat) list" "val list" nat
  | MapEntry nat val "val option" "(val \<times> nat \<times> nat) list" val val "val list" nat
  | DisposeRemoved nat "val list" "(val \<times> nat \<times> nat) list"
  | Collect nat "val list"

text \<open>The key of an item goes in front of the keys of the items after it.\<close>

definition consVal :: "val \<Rightarrow> val outcome \<Rightarrow> val outcome" where
  "consVal v r =
     (case r of
        (Inl e, s) \<Rightarrow> (Inl e, s)
      | (Inr (Arr a vs), s) \<Rightarrow> (Inr (Arr a (v # vs)), s)
      | (Inr _, s) \<Rightarrow> (Inl TypeError, s))"

text \<open>
  Every case takes the environment, fuel (a bound on the depth of calls; user code
  may loop) and the stack \<open>ctx\<close> of active computations, innermost first.

  Modelled from the spec: \<^verbatim>\<open>read\<close>, \<^verbatim>\<open>write\<close>, \<^verbatim>\<open>dispose\<close>, the flush pass and
  \<^verbatim>\<open>flushSync\<close> of \<^verbatim>\<open>./core\<close> (sections 4.1, 5 and 7) and \<^verbatim>\<open>mapArray\<close>
  (section 4.3), none of which is among the sources. \<^verbatim>\<open>createEffect\<close> and its
  \<^verbatim>\<open>runEffect\<close> are translated from \<^verbatim>\<open>src/wip/signals.ts\<close>.

  \<^item> \<open>ReadN\<close> (\<^verbatim>\<open>read\<close>): a disposed node fails; a node that is being computed fails
    as a cycle; a stale node is recomputed; the node becomes a source of the active
    computation.
  \<^item> \<open>RecomputeN\<close>: cleanups run in reverse registration order, owned children are
    disposed, the node leaves its sources, the compute function runs with the node
    on top of the stack; on success the value is stored and the node is fresh. A
    failure leaves value and staleness as they were.
  \<^item> \<open>WriteN\<close> (\<^verbatim>\<open>write\<close>): a function value is an updater and is applied to the
    previous value (section 6; \<^verbatim>\<open>tests/mapArray.test.ts\<close> lines 32 and 68 use both
    forms). \<open>AssignN\<close>: a value that differs is stored and staleness is propagated;
    when no flush is in progress the write runs one.
  \<^item> \<open>FlushP\<close>: runs the pending effects in order, each by a read in an untracked
    scope (the writer does not come to depend on the effects it triggers); a disposed
    one is skipped; a failing one does not stop the pass, the failure is reported
    after it.
  \<^item> \<open>DisposeN\<close> (\<^verbatim>\<open>dispose\<close>): fails on a disposed node; runs the cleanups in
    reverse order, unlinks the node, marks it, and with \<open>disposeChildrenToo\<close> disposes
    the owned children.
  \<^item> \<open>Reconcile\<close> (the memo of \<^verbatim>\<open>mapArray\<close>), steps 1 to 5 of section 4.3: read the
    source; \<open>MapItems\<close>/\<open>MapEntry\<close>: for each item compute its key, and for a key that
    the old table lacks create the index signal and the child computation, run the
    child at once and store the entry, for a key it has update the index signal when
    the position changed; \<open>DisposeRemoved\<close>: dispose the child of every old key that is
    gone; \<open>Collect\<close>: the values of the children in the order of the source.
    The child of an item calls \<open>mapFn\<close> with the item itself and the accessor of its
    index signal: \<^verbatim>\<open>tests/mapArray.test.ts\<close> line 15 reads \<^verbatim>\<open>value.id\<close> off the first
    argument, so there is no item signal to update in step 3. Children and index
    signals are created in an untracked scope (the mapper re-executes on every change
    of the source and would dispose what it owns), and keys and children are read
    untracked, the source being the only dependency of the mapper.
\<close>

fun exec :: "env \<Rightarrow> nat \<Rightarrow> nat option list \<Rightarrow> task \<Rightarrow> state \<Rightarrow> val outcome" where
  "exec E 0 ctx t s = (Inl OutOfFuel, s)"

| "exec E (Suc k) ctx (RunP p) s =
     (case p of
        Return v \<Rightarrow> (Inr v, s)
      | Call f args c \<Rightarrow>
          (case exec E k ctx (CallF f args) s of
             (Inl e, s1) \<Rightarrow> (Inl e, s1)
           | (Inr v, s1) \<Rightarrow> exec E k ctx (RunP (c v)) s1)
      | OnDispose f p' \<Rightarrow> exec E k ctx (RunP p') (onDispose f ctx s)
      | New mk c \<Rightarrow>
          exec E k ctx (RunP (c (mk (next_ref s)))) (s\<lparr>next_ref := Suc (next_ref s)\<rparr>)
      | CreateSignal v c \<Rightarrow>
          (case createSignal v None ctx s of
             ((r, w), s1) \<Rightarrow> exec E k ctx (RunP (c r w)) s1)
      | CreateMemo f c \<Rightarrow>
          (case createMemo f None ctx s of
             (r, s1) \<Rightarrow> exec E k ctx (RunP (c r)) s1)
      | CreateEffect f c \<Rightarrow>
          (case exec E k ctx (CreateEffectF f None) s of
             (Inl e, s1) \<Rightarrow> (Inl e, s1)
           | (Inr h, s1) \<Rightarrow> exec E k ctx (RunP (c h)) s1)
      | MapArray src f key c \<Rightarrow>
          (case mapArray src f key ctx s of
             (r, s1) \<Rightarrow> exec E k ctx (RunP (c r)) s1)
      | FlushSync p' \<Rightarrow>
          (case exec E k ctx FlushSyncP s of
             (Inl e, s1) \<Rightarrow> (Inl e, s1)
           | (Inr _, s1) \<Rightarrow> exec E k ctx (RunP p') s1))"

| "exec E (Suc k) ctx (CallF f args) s =
     (case f of
        Closure c captured \<Rightarrow>
          exec E k ctx (RunP (funs E c captured args)) (emit (Invoke f args) s)
      | BoundRead n \<Rightarrow> exec E k ctx (ReadN n) (emit (Invoke f args) s)
      | BoundWrite n \<Rightarrow> exec E k ctx (WriteN n (arg0 args)) (emit (Invoke f args) s)
      | BoundDispose n b \<Rightarrow> exec E k ctx (DisposeN n b) (emit (Invoke f args) s)
      | StopEffect n \<Rightarrow> exec E k ctx (DisposeN n True) (emit (Invoke f args) s)
      | _ \<Rightarrow> (Inl TypeError, s))"

| "exec E (Suc k) ctx (ReadN n) s =
     (if n_disposed (nodes s n) then (Inl DisposedAccessError, s)
      else if Some n \<in> set ctx then (Inl CyclicDependencyError, s)
      else if n_stale (nodes s n) then
        (case exec E k ctx (RecomputeN n) s of
           (Inl e, s1) \<Rightarrow> (Inl e, s1)
         | (Inr _, s1) \<Rightarrow> (Inr (n_value (nodes s1 n)), track ctx n s1))
      else (Inr (n_value (nodes s n)), track ctx n s))"

| "exec E (Suc k) ctx (RecomputeN n) s =
     (case exec E k ctx (RunAll (rev (n_cleanups (nodes s n))))
             (upd_node n (\<lambda>x. x\<lparr>n_cleanups := []\<rparr>) s) of
        (Inl e, s1) \<Rightarrow> (Inl e, s1)
      | (Inr _, s1) \<Rightarrow>
          (case exec E k ctx (DisposeAll (n_children (nodes s1 n)))
                  (upd_node n (\<lambda>x. x\<lparr>n_children := []\<rparr>) s1) of
             (Inl e, s2) \<Rightarrow> (Inl e, s2)
           | (Inr _, s2) \<Rightarrow>
               (case n_compute (nodes s2 n) of
                  None \<Rightarrow> (Inr (n_value (nodes s2 n)), upd_node n (\<lambda>x. x\<lparr>n_stale := False\<rparr>) s2)
                | Some c \<Rightarrow>
                    (case exec E k (Some n # ctx) (InvokeC n c) (emit (Exec n) (detach n s2)) of
                       (Inl e, s3) \<Rightarrow> (Inl e, s3)
                     | (Inr v, s3) \<Rightarrow>
                         (Inr v, upd_node n (\<lambda>x. x\<lparr>n_value := v, n_stale := False\<rparr>) s3)))))"

| "exec E (Suc k) ctx (InvokeC n c) s =
     (case c of
        Fn f \<Rightarrow> exec E k ctx (CallF f []) s
      | RunEffect effect \<Rightarrow> exec E k ctx (RunEffectF effect) s
      | MapArrayC source mapFn key \<Rightarrow> exec E k ctx (Reconcile n source mapFn key) s
      | MapChild mapFn item idx \<Rightarrow> exec E k ctx (CallF mapFn [item, BoundRead idx]) s)"

| "exec E (Suc k) ctx (RunEffectF effect) s =
     (case exec E k ctx (CallF effect []) s of
        (Inl e, s1) \<Rightarrow> (Inl e, s1)
      | (Inr effectResult, s1) \<Rightarrow>
          (Inr Null, if isFunction effectResult then onDispose effectResult ctx s1 else s1))"

| "exec E (Suc k) ctx (WriteN n v) s =
     (if n_disposed (nodes s n) then (Inl DisposedAccessError, s)
      else if isFunction v then
        (case exec E k ctx (CallF v [n_value (nodes s n)]) s of
           (Inl e, s1) \<Rightarrow> (Inl e, s1)
         | (Inr newValue, s1) \<Rightarrow> exec E k ctx (AssignN n newValue) s1)
      else exec E k ctx (AssignN n v) s)"

| "exec E (Suc k) ctx (AssignN n newValue) s =
     (case (if \<not> unchanged E (n_options (nodes s n)) (n_value (nodes s n)) newValue
            then propagate k (n_observers (nodes s n))
                   (upd_node n (\<lambda>x. x\<lparr>n_value := newValue\<rparr>) s)
            else Some s) of
        None \<Rightarrow> (Inl OutOfFuel, s)
      | Some s1 \<Rightarrow>
          (if flushing s1 then (Inr Undefined, s1)
           else exec E k ctx (FlushP None) (s1\<lparr>flushing := True\<rparr>)))"

| "exec E (Suc k) ctx (FlushP err) s =
     (case pending s of
        [] \<Rightarrow> ((case err of None \<Rightarrow> Inr Undefined | Some e \<Rightarrow> Inl e), s\<lparr>flushing := False\<rparr>)
      | e # es \<Rightarrow>
          (if n_disposed (nodes s e) then exec E k ctx (FlushP err) (s\<lparr>pending := es\<rparr>)
           else
             (case exec E k (None # ctx) (ReadN e) (s\<lparr>pending := es\<rparr>) of
                (Inl x, s1) \<Rightarrow>
                  (if x = OutOfFuel then (Inl OutOfFuel, s1)
                   else exec E k ctx (FlushP (Some EffectExecutionError)) s1)
              | (Inr _, s1) \<Rightarrow> exec E k ctx (FlushP err) s1)))"

| "exec E (Suc k) ctx FlushSyncP s =
     (if flushing s then (Inr Undefined, s)
      else exec E k ctx (FlushP None) (s\<lparr>flushing := True\<rparr>))"

| "exec E (Suc k) ctx (DisposeN n disposeChildrenToo) s =
     (if n_disposed (nodes s n) then (Inl DisposedAccessError, s)
      else
        (case exec E k ctx (RunAll (rev (n_cleanups (nodes s n))))
                (upd_node n (\<lambda>x. x\<lparr>n_cleanups := []\<rparr>) s) of
           (Inl e, s1) \<Rightarrow> (Inl e, s1)
         | (Inr _, s1) \<Rightarrow>
             (if disposeChildrenToo
              then exec E k ctx (DisposeAll (n_children (nodes s1 n)))
                     (emit (Disposed n) (upd_node n (\<lambda>x. x\<lparr>n_disposed := True\<rparr>) (unlink n s1)))
              else (Inr Undefined,
                     emit (Disposed n) (upd_node n (\<lambda>x. x\<lparr>n_disposed := True\<rparr>) (unlink n s1))))))"

| "exec E (Suc k) ctx (DisposeAll ns) s =
     (case ns of
        [] \<Rightarrow> (Inr Undefined, s)
      | c # cs \<Rightarrow>
          (if n_disposed (nodes s c) then exec E k ctx (DisposeAll cs) s
           else
             (case exec E k ctx (DisposeN c True) s of
                (Inl e, s1) \<Rightarrow> (Inl e, s1)
              | (Inr _, s1) \<Rightarrow> exec E k ctx (DisposeAll cs) s1)))"

| "exec E (Suc k) ctx (RunAll fs) s =
     (case fs of
        [] \<Rightarrow> (Inr Undefined, s)
      | f # fs' \<Rightarrow>
          (case exec E k ctx (CallF f []) s of
             (Inl e, s1) \<Rightarrow> (Inl e, s1)
           | (Inr _, s1) \<Rightarrow> exec E k ctx (RunAll fs') s1))"

| "exec E (Suc k) ctx (CreateEffectF effect opts) s =
     (case createComputation Null (Some (RunEffect effect))
             (if dev E then Some (effect_options opts) else None) ctx s of
        (signal, s1) \<Rightarrow>
          (case exec E k ctx (ReadN signal) (upd_node signal (\<lambda>x. x\<lparr>n_effect := True\<rparr>) s1) of
             (Inl e, s2) \<Rightarrow> (Inl e, s2)
           | (Inr _, s2) \<Rightarrow>
               (Inr (if dev E then StopEffect signal else BoundDispose signal True), s2)))"

| "exec E (Suc k) ctx (Reconcile m source mapFn key) s =
     (case exec E k ctx (CallF source []) s of
        (Inl e, s1) \<Rightarrow> (Inl e, s1)
      | (Inr (Arr r items), s1) \<Rightarrow>
          (case exec E k ctx (MapItems m mapFn key (keyToChild s1 m) items 0) s1 of
             (Inl e, s2) \<Rightarrow> (Inl e, s2)
           | (Inr (Arr a keys), s2) \<Rightarrow>
               (case exec E k ctx (DisposeRemoved m keys (keyToChild s1 m)) s2 of
                  (Inl e, s3) \<Rightarrow> (Inl e, s3)
                | (Inr _, s3) \<Rightarrow>
                    (case exec E k ctx (Collect m keys) s3 of
                       (Inl e, s4) \<Rightarrow> (Inl e, s4)
                     | (Inr (Arr b outs), s4) \<Rightarrow>
                         (Inr (Arr (next_ref s4) outs), s4\<lparr>next_ref := Suc (next_ref s4)\<rparr>)
                     | (Inr _, s4) \<Rightarrow> (Inl TypeError, s4)))
           | (Inr _, s2) \<Rightarrow> (Inl TypeError, s2))
      | (Inr _, s1) \<Rightarrow> (Inl TypeError, s1))"

| "exec E (Suc k) ctx (MapItems m mapFn key old items i) s =
     (case items of
        [] \<Rightarrow> (Inr (Arr 0 []), s)
      | item # rest \<Rightarrow>
          (case key of
             None \<Rightarrow> exec E k ctx (MapEntry m mapFn key old item item rest i) s
           | Some kf \<Rightarrow>
               (case exec E k (None # ctx) (CallF kf [item]) s of
                  (Inl e, s1) \<Rightarrow> (Inl e, s1)
                | (Inr ky, s1) \<Rightarrow> exec E k ctx (MapEntry m mapFn key old ky item rest i) s1)))"

| "exec E (Suc k) ctx (MapEntry m mapFn key old ky item rest i) s =
     (case map_of old ky of
        None \<Rightarrow>
          (case createComputation (Num (int i)) None None (None # ctx) s of
             (idx, s1) \<Rightarrow>
               (case createComputation Undefined (Some (MapChild mapFn item idx)) None (None # ctx) s1 of
                  (child, s2) \<Rightarrow>
                    (case exec E k (None # ctx) (ReadN child)
                            (s2\<lparr>keyToChild := (keyToChild s2)
                                  (m := AList.update ky (child, idx) (keyToChild s2 m))\<rparr>) of
                       (Inl e, s3) \<Rightarrow> (Inl e, s3)
                     | (Inr _, s3) \<Rightarrow>
                         consVal ky (exec E k ctx (MapItems m mapFn key old rest (Suc i)) s3))))
      | Some (child, idx) \<Rightarrow>
          (if n_value (nodes s idx) \<noteq> Num (int i)
           then
             (case exec E k ctx (WriteN idx (Num (int i))) s of
                (Inl e, s1) \<Rightarrow> (Inl e, s1)
              | (Inr _, s1) \<Rightarrow>
                  consVal ky (exec E k ctx (MapItems m mapFn key old rest (Suc i)) s1))
           else consVal ky (exec E k ctx (MapItems m mapFn key old rest (Suc i)) s)))"

| "exec E (Suc k) ctx (DisposeRemoved m keys old) s =
     (case old of
        [] \<Rightarrow> (Inr Undefined, s)
      | (ky, child, idx) # rest \<Rightarrow>
          (if ky \<in> set keys then exec E k ctx (DisposeRemoved m keys rest) s
           else
             (case exec E k ctx (DisposeN child True)
                     (s\<lparr>keyToChild := (keyToChild s)(m := AList.delete ky (keyToChild s m))\<rparr>) of
                (Inl e, s1) \<Rightarrow> (Inl e, s1)
              | (Inr _, s1) \<Rightarrow> exec E k ctx (DisposeRemoved m keys rest) s1)))"

| "exec E (Suc k) ctx (Collect m keys) s =
     (case keys of
        [] \<Rightarrow> (Inr (Arr 0 []), s)
      | ky # rest \<Rightarrow>
          (case map_of (keyToChild s m) ky of
             None \<Rightarrow> (Inl TypeError, s)
           | Some (child, idx) \<Rightarrow>
               (case exec E k (None # ctx) (ReadN child) s of
                  (Inl e, s1) \<Rightarrow> (Inl e, s1)
                | (Inr v, s1) \<Rightarrow> consVal v (exec E k ctx (Collect m rest) s1))))"

section \<open>The operations under their names\<close>

abbreviation run :: "env \<Rightarrow> nat \<Rightarrow> nat option list \<Rightarrow> prog \<Rightarrow> state \<Rightarrow> val outcome" where
  "run E k ctx p s \<equiv> exec E k ctx (RunP p) s"

abbreviation call :: "env \<Rightarrow> nat \<Rightarrow> nat option list \<Rightarrow> val \<Rightarrow> val list \<Rightarrow> state \<Rightarrow> val outcome" where
  "call E k ctx f args s \<equiv> exec E k ctx (CallF f args) s"

abbreviation read :: "env \<Rightarrow> nat \<Rightarrow> nat option list \<Rightarrow> nat \<Rightarrow> state \<Rightarrow> val outcome" where
  "read E k ctx n s \<equiv> exec E k ctx (ReadN n) s"

abbreviation "write" :: "env \<Rightarrow> nat \<Rightarrow> nat option list \<Rightarrow> nat \<Rightarrow> val \<Rightarrow> state \<Rightarrow> val outcome" where
  "write E k ctx n v s \<equiv> exec E k ctx (WriteN n v) s"

abbreviation dispose :: "env \<Rightarrow> nat \<Rightarrow> nat option list \<Rightarrow> nat \<Rightarrow> bool \<Rightarrow> state \<Rightarrow> val outcome" where
  "dispose E k ctx n disposeChildrenToo s \<equiv> exec E k ctx (DisposeN n disposeChildrenToo) s"

abbreviation flushSync :: "env \<Rightarrow> nat \<Rightarrow> nat option list \<Rightarrow> state \<Rightarrow> val outcome" where
  "flushSync E k ctx s \<equiv> exec E k ctx FlushSyncP s"

abbreviation runEffect :: "env \<Rightarrow> nat \<Rightarrow> nat option list \<Rightarrow> val \<Rightarrow> state \<Rightarrow> val outcome" where
  "runEffect E k ctx effect s \<equiv> exec E k ctx (RunEffectF effect) s"

abbreviation createEffect ::
  "env \<Rightarrow> nat \<Rightarrow> nat option list \<Rightarrow> val \<Rightarrow> options option \<Rightarrow> state \<Rightarrow> val outcome" where
  "createEffect E k ctx effect opts s \<equiv> exec E k ctx (CreateEffectF effect opts) s"

section \<open>Notions used by the properties\<close>

text \<open>
  \<open>ext ctx l l'\<close>: the log \<open>l'\<close> extends \<open>l\<close>, and none of the computations on the
  stack \<open>ctx\<close> was executed in between.
\<close>

definition ext :: "nat option list \<Rightarrow> event list \<Rightarrow> event list \<Rightarrow> bool" where
  "ext ctx l l' = (\<exists>new. l' = l @ new \<and> (\<forall>m. Some m \<in> set ctx \<longrightarrow> Exec m \<notin> set new))"

text \<open>A recompute is only started by a read, for a node that is not on the stack.\<close>

fun ok :: "nat option list \<Rightarrow> task \<Rightarrow> bool" where
  "ok ctx (RecomputeN n) = (Some n \<notin> set ctx)"
| "ok ctx t = True"

text \<open>
  The state in which \<^verbatim>\<open>createEffect\<close> calls the effect function for the first time
  (the node is created, flagged as an effect and being recomputed), and the state
  it leaves once the effect function has returned \<open>effectResult\<close>.
\<close>

definition before_effect :: "env \<Rightarrow> nat option list \<Rightarrow> val \<Rightarrow> options option \<Rightarrow> state \<Rightarrow> state" where
  "before_effect E ctx effect opts s =
     (let n = next_node s;
          s1 = snd (createComputation Null (Some (RunEffect effect))
                      (if dev E then Some (effect_options opts) else None) ctx s)
      in emit (Exec n) (detach n
           (upd_node n (\<lambda>x. x\<lparr>n_children := []\<rparr>)
             (upd_node n (\<lambda>x. x\<lparr>n_cleanups := []\<rparr>)
               (upd_node n (\<lambda>x. x\<lparr>n_effect := True\<rparr>) s1)))))"

definition after_effect :: "nat \<Rightarrow> nat option list \<Rightarrow> val \<Rightarrow> state \<Rightarrow> state" where
  "after_effect n ctx effectResult s =
     track ctx n
       (upd_node n (\<lambda>x. x\<lparr>n_value := Null, n_stale := False\<rparr>)
          (if isFunction effectResult then onDispose effectResult (Some n # ctx) s else s))"

text \<open>
  \<open>stable s s'\<close>: every node of \<open>s\<close> is still there in \<open>s'\<close> with the same compute
  function, and a node disposed in \<open>s\<close> is disposed in \<open>s'\<close>. It holds between the
  states before and after any operation.
\<close>

definition stable :: "state \<Rightarrow> state \<Rightarrow> bool" where
  "stable s s' =
     (next_node s \<le> next_node s'
      \<and> (\<forall>n<next_node s. n_compute (nodes s' n) = n_compute (nodes s n)
                        \<and> (n_disposed (nodes s n) \<longrightarrow> n_disposed (nodes s' n))))"

text \<open>
  \<open>wf s\<close>: owned children are existing nodes. \<open>kids s s'\<close>: a child owned in \<open>s\<close> is
  still owned by the same node in \<open>s'\<close>, or disposed. \<open>grown\<close> puts the three together.
\<close>

definition wf :: "state \<Rightarrow> bool" where
  "wf s = (\<forall>n. \<forall>c\<in>set (n_children (nodes s n)). c < next_node s)"

definition kids :: "state \<Rightarrow> state \<Rightarrow> bool" where
  "kids s s' = (\<forall>n<next_node s. \<forall>c\<in>set (n_children (nodes s n)).
                  c \<in> set (n_children (nodes s' n)) \<or> n_disposed (nodes s' c))"

definition grown :: "state \<Rightarrow> state \<Rightarrow> bool" where
  "grown s0 s = (wf s0 \<and> wf s \<and> stable s0 s \<and> kids s0 s)"


text \<open>
  \<open>owed e s\<close>: effect \<open>e\<close> is stale and scheduled. \<open>served e s0 s\<close>: since \<open>s0\<close> the
  effect \<open>e\<close> is still owed its run, or is disposed, or has been executed.
\<close>

definition owed :: "nat \<Rightarrow> state \<Rightarrow> bool" where
  "owed e s = (n_stale (nodes s e) \<and> e \<in> set (pending s))"

definition served :: "nat \<Rightarrow> state \<Rightarrow> state \<Rightarrow> bool" where
  "served e s0 s =
     (e < next_node s0 \<and> n_compute (nodes s0 e) \<noteq> None \<and> stable s0 s
      \<and> (\<exists>new. log s = log s0 @ new
            \<and> (owed e s \<or> n_disposed (nodes s e) \<or> Exec e \<in> set new)))"

text \<open>
  The object the mapping function of \<^verbatim>\<open>tests/mapArray.test.ts\<close> (lines 12 to 20)
  builds from its arguments: \<^verbatim>\<open>{ id: value.id, get index() { return index() } }\<close>,
  allocated at \<open>r\<close>. The getter is kept as the index accessor itself.
\<close>

definition entry_of :: "nat \<Rightarrow> val list \<Rightarrow> val" where
  "entry_of r args = Obj r [(''id'', getProp ''id'' (arg0 args)), (''index'', arg1 args)]"

text \<open>
  Example user functions, to instantiate the properties below: 0 returns 7; 1
  returns function 0; 2 creates an effect over function 0; 3 reads node 0; 4 is the
  mapping function of the test; 5 reads node 0 and returns function 0 (an effect
  with a cleanup); 6 reads node 0 and then calls a number (an effect that fails);
  7 is a mapping function that reads its index accessor while it runs; 8 reads
  node 0 and returns function 6 (an effect whose cleanup fails); 9 creates an
  effect over function 3 and then reads node 0 (an effect with a child effect,
  both reading node 0).
\<close>

definition example_funs :: "nat \<Rightarrow> val list \<Rightarrow> val list \<Rightarrow> prog" where
  "example_funs c captured args =
     (if c = 0 then Return (Num 7)
      else if c = 1 then Return (Closure 0 [])
      else if c = 2 then CreateEffect (Closure 0 []) (\<lambda>stop. Return Undefined)
      else if c = 3 then Call (BoundRead 0) [] Return
      else if c = 4 then New (\<lambda>r. entry_of r args) Return
      else if c = 5 then Call (BoundRead 0) [] (\<lambda>v. Return (Closure 0 []))
      else if c = 6 then Call (BoundRead 0) [] (\<lambda>v. Call (Num 0) [] Return)
      else if c = 7 then
        Call (arg1 args) [] (\<lambda>i. New (\<lambda>r. Obj r [(''id'', getProp ''id'' (arg0 args)), (''index'', i)]) Return)
      else if c = 8 then Call (BoundRead 0) [] (\<lambda>v. Return (Closure (Suc (Suc (Suc (Suc (Suc (Suc 0)))))) []))
      else if c = 9 then
        CreateEffect (Closure (Suc (Suc (Suc 0))) []) (\<lambda>stop. Call (BoundRead 0) [] Return)
      else Return (Arr 0 [arg0 args]))"

definition example_env :: env where
  "example_env = \<lparr>funs = example_funs, dev = False, equals = (\<lambda>q a b. a = b)\<rparr>"

text \<open>An example graph: a signal holding 1 (node 0) and an effect that reads it (node 1).\<close>

definition example_graph :: state where
  "example_graph =
     snd (createEffect example_env (Suc (Suc (Suc (Suc (Suc (Suc (Suc (Suc (Suc 0))))))))) []
            (Closure (Suc (Suc (Suc 0))) []) None
            (snd (createSignal (Num 1) None [] init_state)))"


text \<open>
  \<open>marked e s0 s\<close>: if \<open>e\<close> has been flagged disposed since \<open>s0\<close>, the log has
  recorded its disposal since then.
\<close>

definition marked :: "nat \<Rightarrow> state \<Rightarrow> state \<Rightarrow> bool" where
  "marked e s0 s =
     (\<exists>new. log s = log s0 @ new
        \<and> (n_disposed (nodes s e) \<longrightarrow> n_disposed (nodes s0 e) \<or> Disposed e \<in> set new))"




section \<open>Basic facts about the state updates\<close>

lemma nodes_upd_node [simp]:
  "nodes (upd_node n f s) m = (if m = n then f (nodes s n) else nodes s m)"
  by (simp add: upd_node_def)

lemma upd_node_fields [simp]:
  "next_node (upd_node n f s) = next_node s"
  "next_ref (upd_node n f s) = next_ref s"
  "pending (upd_node n f s) = pending s"
  "flushing (upd_node n f s) = flushing s"
  "keyToChild (upd_node n f s) = keyToChild s"
  "log (upd_node n f s) = log s"
  by (simp_all add: upd_node_def)

lemma emit_fields [simp]:
  "nodes (emit e s) = nodes s"
  "next_node (emit e s) = next_node s"
  "next_ref (emit e s) = next_ref s"
  "pending (emit e s) = pending s"
  "flushing (emit e s) = flushing s"
  "keyToChild (emit e s) = keyToChild s"
  "log (emit e s) = log s @ [e]"
  by (simp_all add: emit_def)

lemma init_state_fields [simp]:
  "nodes init_state n = fresh_node Undefined None None"
  "next_node init_state = 0"
  "next_ref init_state = 0"
  "pending init_state = []"
  "flushing init_state = False"
  "keyToChild init_state m = []"
  "log init_state = []"
  by (simp_all add: init_state_def)

lemma ex_funs [simp]:
  "funs example_env 0 c a = Return (Num 7)"
  "funs example_env (Suc 0) c a = Return (Closure 0 [])"
  "funs example_env (Suc (Suc 0)) c a = CreateEffect (Closure 0 []) (\<lambda>stop. Return Undefined)"
  "funs example_env (Suc (Suc (Suc 0))) c a = Call (BoundRead 0) [] Return"
  "funs example_env (Suc (Suc (Suc (Suc 0)))) c a = New (\<lambda>r. entry_of r a) Return"
  "funs example_env (Suc (Suc (Suc (Suc (Suc 0))))) c a = Call (BoundRead 0) [] (\<lambda>v. Return (Closure 0 []))"
  "funs example_env (Suc (Suc (Suc (Suc (Suc (Suc 0)))))) c a = Call (BoundRead 0) [] (\<lambda>v. Call (Num 0) [] Return)"
  "funs example_env (Suc (Suc (Suc (Suc (Suc (Suc (Suc 0))))))) c a =
     Call (arg1 a) [] (\<lambda>i. New (\<lambda>r. Obj r [(''id'', getProp ''id'' (arg0 a)), (''index'', i)]) Return)"
  "funs example_env (Suc (Suc (Suc (Suc (Suc (Suc (Suc (Suc 0)))))))) c a =
     Call (BoundRead 0) [] (\<lambda>v. Return (Closure (Suc (Suc (Suc (Suc (Suc (Suc 0)))))) []))"
  "funs example_env (Suc (Suc (Suc (Suc (Suc (Suc (Suc (Suc (Suc 0))))))))) c a =
     CreateEffect (Closure (Suc (Suc (Suc 0))) []) (\<lambda>stop. Call (BoundRead 0) [] Return)"
  "dev example_env = False"
  "equals example_env q x y = (x = y)"
  by (simp_all add: example_env_def example_funs_def)

lemma same_ref_plain [simp]: "ref_of a = None \<Longrightarrow> same_ref a b = (a = b)"
  by (simp add: same_ref_def)

lemma same_ref_Arr [simp]: "same_ref (Arr r xs) b = (ref_of b = Some r)"
  by (simp add: same_ref_def)

lemma same_ref_Obj [simp]: "same_ref (Obj r fs) b = (ref_of b = Some r)"
  by (simp add: same_ref_def)

lemma unchanged_None [simp]: "unchanged E None a b = same_ref a b"
  by (simp add: unchanged_def)

lemma fold_upd_node_fields [simp]:
  "next_node (fold (\<lambda>x. upd_node x (f x)) xs s) = next_node s"
  "next_ref (fold (\<lambda>x. upd_node x (f x)) xs s) = next_ref s"
  "pending (fold (\<lambda>x. upd_node x (f x)) xs s) = pending s"
  "flushing (fold (\<lambda>x. upd_node x (f x)) xs s) = flushing s"
  "keyToChild (fold (\<lambda>x. upd_node x (f x)) xs s) = keyToChild s"
  "log (fold (\<lambda>x. upd_node x (f x)) xs s) = log s"
  by (induction xs arbitrary: s; simp)+

lemma log_prims [simp]:
  "log (track ctx n s) = log s"
  "log (onDispose f ctx s) = log s"
  "log (detach n s) = log s"
  "log (unlink n s) = log s"
  "log (snd (createComputation v c opts ctx s)) = log s"
  by (simp_all add: track_def onDispose_def detach_def unlink_def createComputation_def Let_def
      split: list.splits option.splits)

lemma log_propagate: "propagate k ns s = Some s' \<Longrightarrow> log s' = log s"
  by (induction k ns s rule: propagate.induct) (auto split: if_splits)

lemma cc_log: "createComputation v c opts ctx s = (n, s1) \<Longrightarrow> log s1 = log s"
  by (auto simp: createComputation_def Let_def split: list.splits option.splits)

lemma consVal_log: "consVal v r = (x, s') \<Longrightarrow> log s' = log (snd r)"
  by (auto simp: consVal_def split: prod.splits sum.splits val.splits)

section \<open>The log only grows, and a computation on the stack is not executed again\<close>

lemma ext_refl [simp]: "ext ctx l l"
  by (simp add: ext_def)

lemma ext_trans: "ext ctx a b \<Longrightarrow> ext ctx b c \<Longrightarrow> ext ctx a c"
  by (auto simp: ext_def)

lemma ext_None [simp]: "ext (None # ctx) a b = ext ctx a b"
  by (auto simp: ext_def)

lemma ext_Some: "ext (Some n # ctx) a b \<Longrightarrow> ext ctx a b"
  by (auto simp: ext_def)

lemma ext_snoc [simp, intro]:
  "ext ctx l b \<Longrightarrow> ext ctx l (b @ [Invoke f args])"
  "ext ctx l b \<Longrightarrow> ext ctx l (b @ [Disposed n])"
  "ext ctx l b \<Longrightarrow> Some n \<notin> set ctx \<Longrightarrow> ext ctx l (b @ [Exec n])"
  by (auto simp: ext_def)

lemma ext_exec_step:
  "\<forall>l. ext (Some n # ctx) l (a @ [Exec n]) \<longrightarrow> ext (Some n # ctx) l b \<Longrightarrow> Some n \<notin> set ctx
     \<Longrightarrow> \<forall>l. ext ctx l a \<longrightarrow> ext ctx l b"
proof (intro allI impI)
  fix l
  assume a: "\<forall>l. ext (Some n # ctx) l (a @ [Exec n]) \<longrightarrow> ext (Some n # ctx) l b"
    and n: "Some n \<notin> set ctx" and l: "ext ctx l a"
  from a have "ext (Some n # ctx) (a @ [Exec n]) b" by simp
  then have "ext ctx (a @ [Exec n]) b" by (rule ext_Some)
  moreover from l n have "ext ctx l (a @ [Exec n])" by simp
  ultimately show "ext ctx l b" by (rule ext_trans[rotated])
qed

lemma exec_log:
  "exec E k ctx t s = (r, s') \<Longrightarrow> ok ctx t \<Longrightarrow> \<forall>l. ext ctx l (log s) \<longrightarrow> ext ctx l (log s')"
proof (induction k arbitrary: ctx t s r s')
  case 0
  then show ?case by simp
next
  case (Suc k)
  note IH = Suc.IH
  note IH' = Suc.IH[OF surjective_pairing, rule_format]
  show ?case
  proof (cases t)
    case (RunP p)
    with Suc.prems show ?thesis
      by (cases p) (auto split: prod.splits sum.splits simp: createSignal_def createMemo_def mapArray_def
          dest!: IH cc_log)
  next
    case (CallF f args)
    with Suc.prems show ?thesis
      by (cases f) (auto dest!: IH)
  next
    case (ReadN n)
    with Suc.prems show ?thesis
      by (auto split: prod.splits sum.splits if_splits dest!: IH)
  next
    case (RecomputeN n)
    with Suc.prems show ?thesis
      by (auto split: prod.splits sum.splits if_splits option.splits dest!: IH ext_exec_step)
  next
    case (InvokeC n c)
    with Suc.prems show ?thesis
      by (cases c) (auto split: prod.splits sum.splits if_splits dest!: IH)
  next
    case (RunEffectF f)
    with Suc.prems show ?thesis
      by (auto split: prod.splits sum.splits if_splits dest!: IH)
  next
    case (WriteN n v)
    with Suc.prems show ?thesis
      by (auto split: prod.splits sum.splits if_splits dest!: IH)
  next
    case (AssignN n v)
    with Suc.prems show ?thesis
      by (auto split: prod.splits sum.splits if_splits option.splits dest!: IH log_propagate)
  next
    case (FlushP err)
    with Suc.prems show ?thesis
      by (auto split: prod.splits sum.splits if_splits option.splits list.splits dest!: IH)
  next
    case FlushSyncP
    with Suc.prems show ?thesis
      by (auto split: prod.splits sum.splits if_splits dest!: IH)
  next
    case (DisposeN n b)
    with Suc.prems show ?thesis
      by (auto split: prod.splits sum.splits if_splits dest!: IH)
  next
    case (DisposeAll ns)
    with Suc.prems show ?thesis
      by (auto split: prod.splits sum.splits if_splits list.splits dest!: IH)
  next
    case (RunAll fs)
    with Suc.prems show ?thesis
      by (auto split: prod.splits sum.splits if_splits list.splits dest!: IH)
  next
    case (CreateEffectF f opts)
    with Suc.prems show ?thesis
      by (auto split: prod.splits sum.splits if_splits dest!: IH cc_log)
  next
    case (Reconcile m src f key)
    with Suc.prems show ?thesis
      by (auto split: prod.splits sum.splits if_splits val.splits dest!: IH)
  next
    case (MapItems m f key old items i)
    with Suc.prems show ?thesis
      by (auto split: prod.splits sum.splits if_splits list.splits option.splits dest!: IH)
  next
    case (MapEntry m f key old ky item rest i)
    with Suc.prems show ?thesis
      by (auto split: prod.splits sum.splits if_splits option.splits
          dest!: IH cc_log consVal_log intro!: IH')
  next
    case (DisposeRemoved m keys old)
    with Suc.prems show ?thesis
      by (auto split: prod.splits sum.splits if_splits list.splits dest!: IH)
  next
    case (Collect m keys)
    with Suc.prems show ?thesis
      by (auto split: prod.splits sum.splits if_splits list.splits option.splits
          dest!: IH consVal_log intro!: IH')
  qed
qed

lemma exec_ext: "exec E k ctx t s = (r, s') \<Longrightarrow> ok ctx t \<Longrightarrow> ext ctx (log s) (log s')"
  using exec_log[of E k ctx t s r s'] by simp

lemma call_emits:
  assumes "call E (Suc k) ctx f args s = (r, s')" "isFunction f"
  shows "\<exists>rest. log s' = log s @ Invoke f args # rest
           \<and> (\<forall>m. Some m \<in> set ctx \<longrightarrow> Exec m \<notin> set rest)"
proof -
  from assms have "ext ctx (log s @ [Invoke f args]) (log s')"
    by (cases f) (auto dest!: exec_ext)
  then show ?thesis by (auto simp: ext_def)
qed

section \<open>\<^verbatim>\<open>createEffect\<close>\<close>

lemma createEffect_unfold:
  assumes "Some (next_node s) \<notin> set ctx"
  shows "createEffect E (Suc (Suc (Suc (Suc (Suc k))))) ctx effect opts s =
     (case call E k (Some (next_node s) # ctx) effect [] (before_effect E ctx effect opts s) of
        (Inl e, sc) \<Rightarrow> (Inl e, sc)
      | (Inr v, sc) \<Rightarrow>
          (Inr (if dev E then StopEffect (next_node s) else BoundDispose (next_node s) True),
           after_effect (next_node s) ctx v sc))"
proof -
  have fresh: "nodes (snd (createComputation Null (Some (RunEffect effect)) o' ctx s)) (next_node s)
      = fresh_node Null (Some (RunEffect effect)) o'" for o'
    using assms by (auto simp: createComputation_def Let_def split: list.splits option.splits)
  have nx: "fst (createComputation Null (Some (RunEffect effect)) o' ctx s) = next_node s" for o'
    by (simp add: createComputation_def Let_def)
  show ?thesis
    using assms
    by (simp add: before_effect_def after_effect_def case_prod_beta fresh nx fresh_node_def Let_def
        split: sum.splits)
qed

lemma log_before_effect [simp]:
  "log (before_effect E ctx effect opts s) = log s @ [Exec (next_node s)]"
  by (simp add: before_effect_def Let_def)

lemma log_after_effect [simp]: "log (after_effect n ctx v s) = log s"
  by (simp add: after_effect_def)

section \<open>Nodes stay allocated, compute functions fixed, disposed nodes disposed\<close>

lemma stable_refl [simp]: "stable s s"
  by (simp add: stable_def)

lemma stable_same:
  "next_node s' = next_node s \<Longrightarrow>
   (\<And>n. n_compute (nodes s' n) = n_compute (nodes s n)) \<Longrightarrow>
   (\<And>n. n_disposed (nodes s n) \<Longrightarrow> n_disposed (nodes s' n)) \<Longrightarrow>
   stable s0 s \<Longrightarrow> stable s0 s'"
  by (auto simp: stable_def)

lemma nodes_fold_upd:
  assumes "\<And>x y. P (f x y) = P y"
  shows "P (nodes (fold (\<lambda>x. upd_node x (f x)) xs s) m) = P (nodes s m)"
  using assms by (induction xs arbitrary: s) auto

lemma cleanups_prims [simp]:
  "n_cleanups (nodes (track ctx n s) m) = n_cleanups (nodes s m)"
  "n_cleanups (nodes (detach n s) m) = n_cleanups (nodes s m)"
  "n_cleanups (nodes (unlink n s) m) = n_cleanups (nodes s m)"
  by (simp_all add: track_def detach_def unlink_def nodes_fold_upd[where P=n_cleanups]
      split: list.splits option.splits)

lemma compute_prims [simp]:
  "n_compute (nodes (track ctx n s) m) = n_compute (nodes s m)"
  "n_compute (nodes (onDispose f ctx s) m) = n_compute (nodes s m)"
  "n_compute (nodes (detach n s) m) = n_compute (nodes s m)"
  "n_compute (nodes (unlink n s) m) = n_compute (nodes s m)"
  by (simp_all add: track_def onDispose_def detach_def unlink_def nodes_fold_upd[where P=n_compute]
      split: list.splits option.splits)

lemma disposed_prims [simp]:
  "n_disposed (nodes (track ctx n s) m) = n_disposed (nodes s m)"
  "n_disposed (nodes (onDispose f ctx s) m) = n_disposed (nodes s m)"
  "n_disposed (nodes (detach n s) m) = n_disposed (nodes s m)"
  "n_disposed (nodes (unlink n s) m) = n_disposed (nodes s m)"
  by (simp_all add: track_def onDispose_def detach_def unlink_def nodes_fold_upd[where P=n_disposed]
      split: list.splits option.splits)

lemma next_node_prims [simp]:
  "next_node (track ctx n s) = next_node s"
  "next_node (onDispose f ctx s) = next_node s"
  "next_node (detach n s) = next_node s"
  "next_node (unlink n s) = next_node s"
  by (simp_all add: track_def onDispose_def detach_def unlink_def
      split: list.splits option.splits)

lemma stable_prims [simp]:
  "stable s0 (track ctx n s) = stable s0 s"
  "stable s0 (onDispose f ctx s) = stable s0 s"
  "stable s0 (detach n s) = stable s0 s"
  "stable s0 (unlink n s) = stable s0 s"
  "stable s0 (emit e s) = stable s0 s"
  "stable s0 (s\<lparr>pending := p\<rparr>) = stable s0 s"
  "stable s0 (s\<lparr>flushing := b\<rparr>) = stable s0 s"
  "stable s0 (s\<lparr>next_ref := r\<rparr>) = stable s0 s"
  "stable s0 (s\<lparr>keyToChild := kc\<rparr>) = stable s0 s"
  by (simp_all add: stable_def)

lemma stable_upd_node [simp]:
  "(\<And>x. n_compute (f x) = n_compute x \<and> n_disposed (f x) = n_disposed x)
     \<Longrightarrow> stable s0 (upd_node n f s) = stable s0 s"
  by (auto simp: stable_def)

lemma stable_dispose [simp, intro]:
  "stable s0 s \<Longrightarrow> stable s0 (upd_node n (\<lambda>x. x\<lparr>n_disposed := True\<rparr>) s)"
  by (auto simp: stable_def)

lemma stable_cc:
  "createComputation v c opts ctx s = (n, s1) \<Longrightarrow> stable s0 s \<Longrightarrow> stable s0 s1"
  by (auto simp: createComputation_def Let_def stable_def split: list.splits option.splits)

lemma stable_propagate: "propagate k ns s = Some s' \<Longrightarrow> stable s0 s \<Longrightarrow> stable s0 s'"
  by (induction k ns s rule: propagate.induct) (auto split: if_splits)

lemma consVal_snd: "consVal v r = (x, s') \<Longrightarrow> s' = snd r"
  by (auto simp: consVal_def split: prod.splits sum.splits val.splits)

lemma exec_stable:
  "exec E k ctx t s = (r, s') \<Longrightarrow> \<forall>s0. stable s0 s \<longrightarrow> stable s0 s'"
proof (induction k arbitrary: ctx t s r s')
  case 0
  then show ?case by simp
next
  case (Suc k)
  note IH = Suc.IH
  note IH' = Suc.IH[OF surjective_pairing, rule_format]
  show ?case
  proof (cases t)
    case (RunP p)
    with Suc.prems show ?thesis
      by (cases p) (auto split: prod.splits sum.splits simp: createSignal_def createMemo_def mapArray_def
          dest!: IH dest: stable_cc)
  next
    case (CallF f args)
    with Suc.prems show ?thesis
      by (cases f) (auto dest!: IH)
  next
    case (ReadN n)
    with Suc.prems show ?thesis
      by (auto split: prod.splits sum.splits if_splits dest!: IH)
  next
    case (RecomputeN n)
    with Suc.prems show ?thesis
      by (auto split: prod.splits sum.splits if_splits option.splits dest!: IH)
  next
    case (InvokeC n c)
    with Suc.prems show ?thesis
      by (cases c) (auto split: prod.splits sum.splits if_splits dest!: IH)
  next
    case (RunEffectF f)
    with Suc.prems show ?thesis
      by (auto split: prod.splits sum.splits if_splits dest!: IH)
  next
    case (WriteN n v)
    with Suc.prems show ?thesis
      by (auto split: prod.splits sum.splits if_splits dest!: IH)
  next
    case (AssignN n v)
    with Suc.prems show ?thesis
      by (auto split: prod.splits sum.splits if_splits option.splits dest!: IH dest: stable_propagate)
  next
    case (FlushP err)
    with Suc.prems show ?thesis
      by (auto split: prod.splits sum.splits if_splits option.splits list.splits dest!: IH)
  next
    case FlushSyncP
    with Suc.prems show ?thesis
      by (auto split: prod.splits sum.splits if_splits dest!: IH)
  next
    case (DisposeN n b)
    with Suc.prems show ?thesis
      by (auto split: prod.splits sum.splits if_splits dest!: IH)
  next
    case (DisposeAll ns)
    with Suc.prems show ?thesis
      by (auto split: prod.splits sum.splits if_splits list.splits dest!: IH)
  next
    case (RunAll fs)
    with Suc.prems show ?thesis
      by (auto split: prod.splits sum.splits if_splits list.splits dest!: IH)
  next
    case (CreateEffectF f opts)
    with Suc.prems show ?thesis
      by (auto split: prod.splits sum.splits if_splits dest!: IH dest: stable_cc)
  next
    case (Reconcile m src f key)
    with Suc.prems show ?thesis
      by (auto split: prod.splits sum.splits if_splits val.splits dest!: IH)
  next
    case (MapItems m f key old items i)
    with Suc.prems show ?thesis
      by (auto split: prod.splits sum.splits if_splits list.splits option.splits dest!: IH)
  next
    case (MapEntry m f key old ky item rest i)
    with Suc.prems show ?thesis
      by (auto split: prod.splits sum.splits if_splits option.splits
          dest!: IH consVal_snd dest: stable_cc intro!: IH')
  next
    case (DisposeRemoved m keys old)
    with Suc.prems show ?thesis
      by (auto split: prod.splits sum.splits if_splits list.splits dest!: IH)
  next
    case (Collect m keys)
    with Suc.prems show ?thesis
      by (auto split: prod.splits sum.splits if_splits list.splits option.splits
          dest!: IH consVal_snd intro!: IH')
  qed
qed

lemma stable_trans: "stable a b \<Longrightarrow> stable b c \<Longrightarrow> stable a c"
  by (auto simp: stable_def)

lemma exec_stable': "exec E k ctx t s = (r, s') \<Longrightarrow> stable s s'"
  using exec_stable[of E k ctx t s r s'] by simp

lemma dispose_post:
  assumes "dispose E k ctx n b s = (Inr v, s')" "n < next_node s"
  shows "n_disposed (nodes s' n)"
proof (cases k)
  case 0
  with assms show ?thesis by simp
next
  case (Suc j)
  with assms obtain u s1 where
    r: "exec E j ctx (RunAll (rev (n_cleanups (nodes s n)))) (upd_node n (\<lambda>x. x\<lparr>n_cleanups := []\<rparr>) s)
          = (Inr u, s1)"
    by (auto split: if_splits prod.splits sum.splits)
  let ?s2 = "emit (Disposed n) (upd_node n (\<lambda>x. x\<lparr>n_disposed := True\<rparr>) (unlink n s1))"
  from exec_stable'[OF r] assms(2) have n1: "n < next_node ?s2"
    by (simp add: stable_def)
  have d2: "n_disposed (nodes ?s2 n)" by simp
  show ?thesis
  proof (cases b)
    case True
    with assms Suc r have "exec E j ctx (DisposeAll (n_children (nodes s1 n))) ?s2 = (Inr v, s')"
      by (auto split: if_splits)
    from exec_stable'[OF this] n1 d2 show ?thesis
      by (auto simp: stable_def)
  next
    case False
    with assms Suc r have "s' = ?s2" by (auto split: if_splits)
    with d2 show ?thesis by simp
  qed
qed

lemma disposeAll_post:
  "exec E k ctx (DisposeAll cs) s = (Inr v, s') \<Longrightarrow> \<forall>c\<in>set cs. c < next_node s
     \<Longrightarrow> \<forall>c\<in>set cs. n_disposed (nodes s' c)"
proof (induction k arbitrary: cs s)
  case 0
  then show ?case by simp
next
  case (Suc k)
  show ?case
  proof (cases cs)
    case Nil
    then show ?thesis by simp
  next
    case (Cons c cs')
    show ?thesis
    proof (cases "n_disposed (nodes s c)")
      case True
      with Suc.prems Cons have e: "exec E k ctx (DisposeAll cs') s = (Inr v, s')" by simp
      from exec_stable'[OF e] True Suc.prems(2) Cons have "n_disposed (nodes s' c)"
        by (auto simp: stable_def)
      moreover from Suc.IH[OF e] Suc.prems(2) Cons have "\<forall>c\<in>set cs'. n_disposed (nodes s' c)"
        by simp
      ultimately show ?thesis using Cons by simp
    next
      case False
      with Suc.prems Cons obtain u s1 where
        d: "dispose E k ctx c True s = (Inr u, s1)" and
        e: "exec E k ctx (DisposeAll cs') s1 = (Inr v, s')"
        by (auto split: prod.splits sum.splits)
      from Suc.prems(2) Cons have c: "c < next_node s" by simp
      from dispose_post[OF d c] have dc: "n_disposed (nodes s1 c)" .
      from exec_stable'[OF d] have st: "stable s s1" .
      from st c have c1: "c < next_node s1" by (simp add: stable_def)
      from exec_stable'[OF e] dc c1 have "n_disposed (nodes s' c)"
        by (auto simp: stable_def)
      moreover from st Suc.prems(2) Cons have "\<forall>c\<in>set cs'. c < next_node s1"
        by (auto simp: stable_def)
      from Suc.IH[OF e this] have "\<forall>c\<in>set cs'. n_disposed (nodes s' c)" .
      ultimately show ?thesis using Cons by simp
    qed
  qed
qed

lemma flush_failed:
  "exec E k ctx (FlushP (Some e)) s = (r, s') \<Longrightarrow> \<exists>x. r = Inl x"
proof (induction k arbitrary: s e)
  case 0
  then show ?case by auto
next
  case (Suc k)
  then show ?case
    by (auto split: list.splits if_splits prod.splits sum.splits)
qed

lemma children_prims [simp]:
  "n_children (nodes (track ctx n s) m) = n_children (nodes s m)"
  "n_children (nodes (onDispose f ctx s) m) = n_children (nodes s m)"
  "n_children (nodes (detach n s) m) = n_children (nodes s m)"
  "n_children (nodes (unlink n s) m) = n_children (nodes s m)"
  by (simp_all add: track_def onDispose_def detach_def unlink_def nodes_fold_upd[where P=n_children]
      split: list.splits option.splits)

lemma grown_prims [simp]:
  "grown s0 (track ctx n s) = grown s0 s"
  "grown s0 (onDispose f ctx s) = grown s0 s"
  "grown s0 (detach n s) = grown s0 s"
  "grown s0 (unlink n s) = grown s0 s"
  "grown s0 (emit e s) = grown s0 s"
  "grown s0 (s\<lparr>pending := p\<rparr>) = grown s0 s"
  "grown s0 (s\<lparr>flushing := b\<rparr>) = grown s0 s"
  "grown s0 (s\<lparr>next_ref := r\<rparr>) = grown s0 s"
  "grown s0 (s\<lparr>keyToChild := kc\<rparr>) = grown s0 s"
  by (simp_all add: grown_def wf_def kids_def)

lemma grown_upd_node [simp]:
  "(\<And>x. n_compute (f x) = n_compute x \<and> n_disposed (f x) = n_disposed x
          \<and> n_children (f x) = n_children x)
     \<Longrightarrow> grown s0 (upd_node n f s) = grown s0 s"
  by (auto simp: grown_def wf_def kids_def stable_def)

lemma grown_dispose [simp, intro]:
  "grown s0 s \<Longrightarrow> grown s0 (upd_node n (\<lambda>x. x\<lparr>n_disposed := True\<rparr>) s)"
  by (auto simp: grown_def wf_def kids_def stable_def)

lemma wf_lt: "wf s \<Longrightarrow> c \<in> set (n_children (nodes s n)) \<Longrightarrow> c < next_node s"
  by (auto simp: wf_def)

lemma grown_cc:
  assumes cc: "createComputation v c opts ctx s = (n, s1)" and g: "grown s0 s"
  shows "grown s0 s1"
proof -
  from cc have n: "n = next_node s" and nx: "next_node s1 = Suc (next_node s)"
    by (auto simp: createComputation_def Let_def split: list.splits option.splits)
  from cc have comp: "\<And>m. m \<noteq> next_node s \<Longrightarrow> n_compute (nodes s1 m) = n_compute (nodes s m)"
    and disp: "\<And>m. m \<noteq> next_node s \<Longrightarrow> n_disposed (nodes s1 m) = n_disposed (nodes s m)"
    and ch: "\<And>m. set (n_children (nodes s1 m)) \<subseteq> insert (next_node s) (set (n_children (nodes s m)))"
    and ch2: "\<And>m. m \<noteq> next_node s \<Longrightarrow> set (n_children (nodes s m)) \<subseteq> set (n_children (nodes s1 m))"
    by (auto simp: createComputation_def Let_def fresh_node_def split: list.splits option.splits if_splits)
  from g have w0: "wf s0" and w: "wf s" and st: "stable s0 s" and k: "kids s0 s"
    by (auto simp: grown_def)
  have "wf s1"
    unfolding wf_def
  proof (intro allI ballI)
    fix m x assume "x \<in> set (n_children (nodes s1 m))"
    with ch[of m] have "x = next_node s \<or> x \<in> set (n_children (nodes s m))" by auto
    with w nx show "x < next_node s1" by (auto dest: wf_lt)
  qed
  moreover have "stable s0 s1"
    using st nx comp disp by (auto simp: stable_def)
  moreover have "kids s0 s1"
    unfolding kids_def
  proof (intro allI impI ballI)
    fix m x assume m: "m < next_node s0" and x: "x \<in> set (n_children (nodes s0 m))"
    from st have le: "next_node s0 \<le> next_node s" by (simp add: stable_def)
    from x w0 have "x < next_node s0" by (rule wf_lt[rotated])
    with le have xn: "x \<noteq> next_node s" by simp
    from m le have mn: "m \<noteq> next_node s" by simp
    from k m x have "x \<in> set (n_children (nodes s m)) \<or> n_disposed (nodes s x)"
      by (auto simp: kids_def)
    with ch2[OF mn] disp[OF xn]
    show "x \<in> set (n_children (nodes s1 m)) \<or> n_disposed (nodes s1 x)" by auto
  qed
  ultimately show ?thesis using w0 by (simp add: grown_def)
qed

lemma grown_propagate: "propagate k ns s = Some s' \<Longrightarrow> grown s0 s \<Longrightarrow> grown s0 s'"
  by (induction k ns s rule: propagate.induct) (auto split: if_splits)

lemma flush_Some_Inr [simp]: "(exec E k ctx (FlushP (Some e)) s = (Inr v, s')) = False"
  using flush_failed[of E k ctx e s "Inr v" s'] by auto

lemma consVal_Inr: "consVal v r = (Inr x, s') \<Longrightarrow> \<exists>a vs. r = (Inr (Arr a vs), s')"
  by (auto simp: consVal_def split: prod.splits sum.splits val.splits)

lemma grown_refl: "wf s \<Longrightarrow> grown s s"
  by (simp add: grown_def kids_def)

lemma exec_grown:
  "exec E k ctx t s = (Inr v, s') \<Longrightarrow> \<forall>s0. grown s0 s \<longrightarrow> grown s0 s'"
proof (induction k arbitrary: ctx t s v s')
  case 0
  then show ?case by simp
next
  case (Suc k)
  note IH = Suc.IH
  show ?case
  proof (cases t)
    case (RunP p)
    with Suc.prems show ?thesis
      by (cases p) (auto split: prod.splits sum.splits simp: createSignal_def createMemo_def mapArray_def
          dest!: IH dest: grown_cc)
  next
    case (CallF f args)
    with Suc.prems show ?thesis
      by (cases f) (auto dest!: IH)
  next
    case (ReadN n)
    with Suc.prems show ?thesis
      by (auto split: prod.splits sum.splits if_splits dest!: IH)
  next
    case (RecomputeN n)
    show ?thesis
    proof (intro allI impI)
      fix s0 assume g0: "grown s0 s"
      from Suc.prems RecomputeN obtain u1 s1 u2 s2 where
        r1: "exec E k ctx (RunAll (rev (n_cleanups (nodes s n))))
               (upd_node n (\<lambda>x. x\<lparr>n_cleanups := []\<rparr>) s) = (Inr u1, s1)" and
        r2: "exec E k ctx (DisposeAll (n_children (nodes s1 n)))
               (upd_node n (\<lambda>x. x\<lparr>n_children := []\<rparr>) s1) = (Inr u2, s2)" and
        r3: "(case n_compute (nodes s2 n) of
                None \<Rightarrow> (Inr (n_value (nodes s2 n)), upd_node n (\<lambda>x. x\<lparr>n_stale := False\<rparr>) s2)
              | Some c \<Rightarrow>
                  (case exec E k (Some n # ctx) (InvokeC n c) (emit (Exec n) (detach n s2)) of
                     (Inl e, s3) \<Rightarrow> (Inl e, s3)
                   | (Inr v, s3) \<Rightarrow>
                       (Inr v, upd_node n (\<lambda>x. x\<lparr>n_value := v, n_stale := False\<rparr>) s3)))
              = (Inr v, s')"
        by (auto split: prod.splits sum.splits)
      let ?s1' = "upd_node n (\<lambda>x. x\<lparr>n_children := []\<rparr>) s1"
      from IH[OF r1] g0 have g1: "grown s0 s1" by simp
      then have w0: "wf s0" and w1: "wf s1" and st1: "stable s0 s1" and k1: "kids s0 s1"
        by (auto simp: grown_def)
      have w1': "wf ?s1'" using w1 by (auto simp: wf_def)
      from IH[OF r2] grown_refl[OF w1'] have g12: "grown ?s1' s2" by simp
      then have w2: "wf s2" and st12: "stable ?s1' s2" and k12: "kids ?s1' s2"
        by (auto simp: grown_def)
      from w1 have "\<forall>c\<in>set (n_children (nodes s1 n)). c < next_node ?s1'"
        by (auto dest: wf_lt)
      from disposeAll_post[OF r2 this]
      have post: "\<forall>c\<in>set (n_children (nodes s1 n)). n_disposed (nodes s2 c)" .
      have st1': "stable s0 ?s1'" using st1 by (auto simp: stable_def)
      have st2: "stable s0 s2" by (rule stable_trans[OF st1' st12])
      have k2: "kids s0 s2"
        unfolding kids_def
      proof (intro allI impI ballI)
        fix m c assume m: "m < next_node s0" and c: "c \<in> set (n_children (nodes s0 m))"
        from c w0 have c0: "c < next_node s0" by (rule wf_lt[rotated])
        from st1 have le: "next_node s0 \<le> next_node s1" by (simp add: stable_def)
        from k1 m c have "c \<in> set (n_children (nodes s1 m)) \<or> n_disposed (nodes s1 c)"
          by (auto simp: kids_def)
        then show "c \<in> set (n_children (nodes s2 m)) \<or> n_disposed (nodes s2 c)"
        proof
          assume in1: "c \<in> set (n_children (nodes s1 m))"
          show ?thesis
          proof (cases "m = n")
            case True
            with in1 post show ?thesis by auto
          next
            case False
            with in1 have "c \<in> set (n_children (nodes ?s1' m))" by simp
            moreover from m le have "m < next_node ?s1'" by simp
            ultimately show ?thesis using k12 by (auto simp: kids_def)
          qed
        next
          assume "n_disposed (nodes s1 c)"
          then have "n_disposed (nodes ?s1' c)" by auto
          moreover from c0 le have "c < next_node ?s1'" by simp
          ultimately show ?thesis using st12 by (auto simp: stable_def)
        qed
      qed
      from w0 w2 st2 k2 have g2: "grown s0 s2" by (simp add: grown_def)
      show "grown s0 s'"
      proof (cases "n_compute (nodes s2 n)")
        case None
        with r3 g2 show ?thesis by auto
      next
        case (Some c)
        with r3 obtain s3 where
          r4: "exec E k (Some n # ctx) (InvokeC n c) (emit (Exec n) (detach n s2)) = (Inr v, s3)"
          and s': "s' = upd_node n (\<lambda>x. x\<lparr>n_value := v, n_stale := False\<rparr>) s3"
          by (auto split: prod.splits sum.splits)
        from IH[OF r4] g2 have "grown s0 s3" by simp
        with s' show ?thesis by simp
      qed
    qed
  next
    case (InvokeC n c)
    with Suc.prems show ?thesis
      by (cases c) (auto split: prod.splits sum.splits if_splits dest!: IH)
  next
    case (RunEffectF f)
    with Suc.prems show ?thesis
      by (auto split: prod.splits sum.splits if_splits dest!: IH)
  next
    case (WriteN n v)
    with Suc.prems show ?thesis
      by (auto split: prod.splits sum.splits if_splits dest!: IH)
  next
    case (AssignN n v)
    with Suc.prems show ?thesis
      by (auto split: prod.splits sum.splits if_splits option.splits dest!: IH dest: grown_propagate)
  next
    case (FlushP err)
    with Suc.prems show ?thesis
      by (auto split: prod.splits sum.splits if_splits option.splits list.splits dest!: IH)
  next
    case FlushSyncP
    with Suc.prems show ?thesis
      by (auto split: prod.splits sum.splits if_splits dest!: IH)
  next
    case (DisposeN n b)
    with Suc.prems show ?thesis
      by (auto split: prod.splits sum.splits if_splits dest!: IH)
  next
    case (DisposeAll ns)
    with Suc.prems show ?thesis
      by (auto split: prod.splits sum.splits if_splits list.splits dest!: IH)
  next
    case (RunAll fs)
    with Suc.prems show ?thesis
      by (auto split: prod.splits sum.splits if_splits list.splits dest!: IH)
  next
    case (CreateEffectF f opts)
    with Suc.prems show ?thesis
      by (auto split: prod.splits sum.splits if_splits dest!: IH dest: grown_cc)
  next
    case (Reconcile m src f key)
    with Suc.prems show ?thesis
      by (auto split: prod.splits sum.splits if_splits val.splits dest!: IH)
  next
    case (MapItems m f key old items i)
    with Suc.prems show ?thesis
      by (auto split: prod.splits sum.splits if_splits list.splits option.splits dest!: IH)
  next
    case (MapEntry m f key old ky item rest i)
    with Suc.prems show ?thesis
      by (auto split: prod.splits sum.splits if_splits option.splits
          dest!: consVal_Inr IH dest: grown_cc)
  next
    case (DisposeRemoved m keys old)
    with Suc.prems show ?thesis
      by (auto split: prod.splits sum.splits if_splits list.splits dest!: IH)
  next
    case (Collect m keys)
    with Suc.prems show ?thesis
      by (auto split: prod.splits sum.splits if_splits list.splits option.splits
          dest!: consVal_Inr IH)
  qed
qed

lemma wf_init [simp]: "wf init_state"
  by (simp add: wf_def fresh_node_def)

lemma exec_wf: "exec E k ctx t s = (Inr v, s') \<Longrightarrow> wf s \<Longrightarrow> wf s'"
  using exec_grown[of E k ctx t s v s'] grown_refl[of s] by (auto simp: grown_def)

section \<open>\<^verbatim>\<open>createSignal\<close>\<close>

text \<open>
  C8. \<^verbatim>\<open>createSignal(initial)\<close> returns \<^verbatim>\<open>read\<close> and \<^verbatim>\<open>write\<close> bound to one and the
  same node, which is fresh: it is the next node of the store, the store has
  allocated it afterwards, no other node has changed (but for the owner, the active
  computation, which has it as a new child), and whatever runs afterwards, a later
  \<^verbatim>\<open>createSignal\<close> or \<^verbatim>\<open>createComputation\<close> gives another node. The node is plain: it
  holds \<open>initial\<close>, has no compute function and is neither stale nor disposed.
  Reading it gives \<open>initial\<close>. Writing a plain value \<open>v\<close> stores \<open>v\<close>, unless the
  change test finds it unchanged; writing an updater function calls the updater
  with the previous value and stores what it returns, under the same test. (The
  signal is created with no effect pending, and the new node is not one of the
  active computations.)
\<close>

theorem createSignal_pair:
  assumes cs: "createSignal initial opts ctx s = ((r, w), s1)"
    and fresh: "Some (next_node s) \<notin> set ctx"
    and quiet: "pending s = []"
    and plain: "\<not> isFunction v"
    and upd: "\<And>args. funs E c captured args = Return (g (arg0 args))"
  shows "r = BoundRead (next_node s) \<and> w = BoundWrite (next_node s)
     \<and> next_node s1 = Suc (next_node s)
     \<and> nodes s1 (next_node s) = fresh_node initial None opts
     \<and> (\<forall>n. n \<noteq> next_node s \<and> (\<forall>rest. ctx \<noteq> Some n # rest) \<longrightarrow> nodes s1 n = nodes s n)
     \<and> (\<forall>owner rest. ctx = Some owner # rest \<longrightarrow>
           nodes s1 owner = (nodes s owner)\<lparr>n_children := n_children (nodes s owner) @ [next_node s]\<rparr>)
     \<and> (\<forall>E' k' ctx' t x s2 initial' compute' opts' ctx2.
           exec E' k' ctx' t s1 = (x, s2) \<longrightarrow>
             next_node s < fst (createComputation initial' compute' opts' ctx2 s2)
             \<and> fst (fst (createSignal initial' opts' ctx2 s2)) \<noteq> r
             \<and> snd (fst (createSignal initial' opts' ctx2 s2)) \<noteq> w)
     \<and> fst (call E (Suc (Suc k)) ctx r [] s1) = Inr initial
     \<and> fst (call E (Suc (Suc (Suc (Suc k)))) ctx w [v] s1) = Inr Undefined
     \<and> n_value (nodes (snd (call E (Suc (Suc (Suc (Suc k)))) ctx w [v] s1)) (next_node s))
         = (if unchanged E opts initial v then initial else v)
     \<and> fst (call E (Suc (Suc (Suc (Suc k)))) ctx w [Closure c captured] s1) = Inr Undefined
     \<and> n_value (nodes (snd (call E (Suc (Suc (Suc (Suc k)))) ctx w [Closure c captured] s1))
          (next_node s))
         = (if unchanged E opts initial (g initial) then initial else g initial)
     \<and> log (snd (call E (Suc (Suc (Suc (Suc k)))) ctx w [Closure c captured] s1))
         = log s @ [Invoke w [Closure c captured], Invoke (Closure c captured) [initial]]"
proof -
  from cs have rw: "r = BoundRead (next_node s)" "w = BoundWrite (next_node s)"
    and nn: "next_node s1 = Suc (next_node s)"
    and node: "nodes s1 (next_node s) = fresh_node initial None opts"
    and others: "\<forall>n. n \<noteq> next_node s \<and> (\<forall>rest. ctx \<noteq> Some n # rest) \<longrightarrow> nodes s1 n = nodes s n"
    and owner: "\<forall>owner rest. ctx = Some owner # rest \<longrightarrow>
           nodes s1 owner = (nodes s owner)\<lparr>n_children := n_children (nodes s owner) @ [next_node s]\<rparr>"
    and fields: "pending s1 = pending s" "log s1 = log s"
    using fresh
    by (auto simp: createSignal_def createComputation_def Let_def upd_node_def
        split: list.splits option.splits)
  have later: "next_node s < fst (createComputation initial' compute' opts' ctx2 s2)
             \<and> fst (fst (createSignal initial' opts' ctx2 s2)) \<noteq> r
             \<and> snd (fst (createSignal initial' opts' ctx2 s2)) \<noteq> w"
    if "exec E' k' ctx' t s1 = (x, s2)" for E' k' ctx' t x s2 initial' compute' opts' ctx2
  proof -
    from exec_stable'[OF that] nn have "next_node s < next_node s2" by (simp add: stable_def)
    then show ?thesis
      by (auto simp: rw createSignal_def createComputation_def Let_def split: prod.splits)
  qed
  have rd: "fst (call E (Suc (Suc k)) ctx r [] s1) = Inr initial"
    using fresh by (simp add: rw node fresh_node_def)
  have obs: "n_observers (nodes s1 (next_node s)) = []" "\<not> n_disposed (nodes s1 (next_node s))"
    "n_value (nodes s1 (next_node s)) = initial" "n_options (nodes s1 (next_node s)) = opts"
    by (simp_all add: node fresh_node_def)
  have wr: "fst (call E (Suc (Suc (Suc (Suc k)))) ctx w [v] s1) = Inr Undefined
     \<and> n_value (nodes (snd (call E (Suc (Suc (Suc (Suc k)))) ctx w [v] s1)) (next_node s))
         = (if unchanged E opts initial v then initial else v)"
    using plain quiet by (simp add: rw obs fields arg0_def)
  have up: "fst (call E (Suc (Suc (Suc (Suc k)))) ctx w [Closure c captured] s1) = Inr Undefined
     \<and> n_value (nodes (snd (call E (Suc (Suc (Suc (Suc k)))) ctx w [Closure c captured] s1))
          (next_node s))
         = (if unchanged E opts initial (g initial) then initial else g initial)
     \<and> log (snd (call E (Suc (Suc (Suc (Suc k)))) ctx w [Closure c captured] s1))
         = log s @ [Invoke w [Closure c captured], Invoke (Closure c captured) [initial]]"
    using quiet by (simp add: rw obs fields arg0_def upd)
  from rw nn node others owner later rd wr up show ?thesis by blast
qed

theorem createSignal_pair_witness:
  "createSignal (Num 1) None [] init_state
     = ((BoundRead 0, BoundWrite 0), snd (createSignal (Num 1) None [] init_state))
   \<and> Some (next_node init_state) \<notin> set [] \<and> pending init_state = [] \<and> \<not> isFunction (Num 2)
   \<and> next_node (snd (createSignal (Num 1) None [] init_state)) = Suc 0
   \<and> nodes (snd (createSignal (Num 1) None [] init_state)) 0 = fresh_node (Num 1) None None
   \<and> nodes (snd (createSignal (Num 1) None [] init_state)) (Suc 0) = nodes init_state (Suc 0)
   \<and> fst (fst (createSignal (Num 3) None []
        (snd (write example_env (Suc (Suc (Suc 0))) [] 0 (Num 2)
           (snd (createSignal (Num 1) None [] init_state)))))) \<noteq> BoundRead 0
   \<and> fst (call example_env (Suc (Suc 0)) [] (BoundRead 0) [] (snd (createSignal (Num 1) None [] init_state)))
       = Inr (Num 1)
   \<and> n_value (nodes (snd (call example_env (Suc (Suc (Suc (Suc 0)))) [] (BoundWrite 0) [Num 2]
             (snd (createSignal (Num 1) None [] init_state)))) 0) = Num 2
   \<and> n_value (nodes (snd (call example_env (Suc (Suc (Suc (Suc 0)))) [] (BoundWrite 0) [Closure 0 []]
             (snd (createSignal (Num 1) None [] init_state)))) 0) = Num 7
   \<and> log (snd (call example_env (Suc (Suc (Suc (Suc 0)))) [] (BoundWrite 0) [Closure 0 []]
             (snd (createSignal (Num 1) None [] init_state))))
       = [Invoke (BoundWrite 0) [Closure 0 []], Invoke (Closure 0 []) [Num 1]]"
proof -
  let ?s1 = "snd (createSignal (Num 1) None [] init_state)"
  have cs: "createSignal (Num 1) None [] init_state = ((BoundRead 0, BoundWrite 0), ?s1)"
    by (simp add: createSignal_def createComputation_def Let_def)
  have q: "pending init_state = []" and n: "Some (next_node init_state) \<notin> set []"
    by simp_all
  have p: "\<not> isFunction (Num 2)" by simp
  have u: "\<And>args. funs example_env 0 [] args = Return ((\<lambda>v. Num 7) (arg0 args))" by simp
  note t = createSignal_pair[OF cs n q p u, of 0]
  have later: "fst (fst (createSignal (Num 3) None []
        (snd (write example_env (Suc (Suc (Suc 0))) [] 0 (Num 2) ?s1)))) \<noteq> BoundRead 0"
  proof -
    have "exec example_env (Suc (Suc (Suc 0))) [] (WriteN 0 (Num 2)) ?s1
      = (fst (write example_env (Suc (Suc (Suc 0))) [] 0 (Num 2) ?s1),
         snd (write example_env (Suc (Suc (Suc 0))) [] 0 (Num 2) ?s1))"
      by (simp del: exec.simps)
    with t show ?thesis by blast
  qed
  have nn: "next_node init_state = 0" by simp
  from t later cs show ?thesis
    unfolding nn by (simp del: exec.simps)
qed

section \<open>Effect nodes hold null\<close>

lemma runEffect_Null: "runEffect E k ctx effect s = (Inr v, s') \<Longrightarrow> v = Null"
  by (cases k) (auto split: prod.splits sum.splits)

lemma invoke_effect_Null:
  "exec E k ctx (InvokeC n (RunEffect effect)) s = (Inr v, s') \<Longrightarrow> v = Null"
  by (cases k) (auto dest: runEffect_Null)

lemma recompute_effect_Null:
  assumes c: "n_compute (nodes s n) = Some (RunEffect effect)"
    and n: "n < next_node s"
    and r: "exec E k ctx (RecomputeN n) s = (Inr v, s')"
  shows "v = Null \<and> n_value (nodes s' n) = Null \<and> \<not> n_stale (nodes s' n)"
proof (cases k)
  case 0
  with r show ?thesis by simp
next
  case (Suc j)
  let ?sa = "upd_node n (\<lambda>x. x\<lparr>n_cleanups := []\<rparr>) s"
  from r Suc obtain u1 s1 u2 s2 where
    r1: "exec E j ctx (RunAll (rev (n_cleanups (nodes s n)))) ?sa = (Inr u1, s1)" and
    r2: "exec E j ctx (DisposeAll (n_children (nodes s1 n)))
           (upd_node n (\<lambda>x. x\<lparr>n_children := []\<rparr>) s1) = (Inr u2, s2)" and
    r3: "(case n_compute (nodes s2 n) of
            None \<Rightarrow> (Inr (n_value (nodes s2 n)), upd_node n (\<lambda>x. x\<lparr>n_stale := False\<rparr>) s2)
          | Some c \<Rightarrow>
              (case exec E j (Some n # ctx) (InvokeC n c) (emit (Exec n) (detach n s2)) of
                 (Inl e, s3) \<Rightarrow> (Inl e, s3)
               | (Inr v, s3) \<Rightarrow>
                   (Inr v, upd_node n (\<lambda>x. x\<lparr>n_value := v, n_stale := False\<rparr>) s3)))
          = (Inr v, s')"
    by (auto split: prod.splits sum.splits)
  from exec_stable'[OF r1] n c have c1: "n_compute (nodes s1 n) = Some (RunEffect effect)"
    and n1: "n < next_node s1"
    by (auto simp: stable_def)
  from exec_stable'[OF r2] n1 c1 have c2: "n_compute (nodes s2 n) = Some (RunEffect effect)"
    by (auto simp: stable_def)
  from r3 c2 obtain s3 where
    r4: "exec E j (Some n # ctx) (InvokeC n (RunEffect effect)) (emit (Exec n) (detach n s2)) = (Inr v, s3)"
    and s': "s' = upd_node n (\<lambda>x. x\<lparr>n_value := v, n_stale := False\<rparr>) s3"
    by (auto split: prod.splits sum.splits)
  from invoke_effect_Null[OF r4] s' show ?thesis by simp
qed

lemma value_track [simp]: "n_value (nodes (track ctx n s) m) = n_value (nodes s m)"
  by (simp add: track_def split: list.splits option.splits)

lemma dispose_children_post:
  assumes d: "dispose E k ctx n True s = (Inr v, s')" and n: "n < next_node s" and w: "wf s"
  shows "\<forall>c\<in>set (n_children (nodes s n)). n_disposed (nodes s' c)"
proof (cases k)
  case 0
  with d show ?thesis by simp
next
  case (Suc j)
  let ?sa = "upd_node n (\<lambda>x. x\<lparr>n_cleanups := []\<rparr>) s"
  from d Suc obtain u s1 where
    r: "exec E j ctx (RunAll (rev (n_cleanups (nodes s n)))) ?sa = (Inr u, s1)"
    by (auto split: if_splits prod.splits sum.splits)
  let ?s2 = "emit (Disposed n) (upd_node n (\<lambda>x. x\<lparr>n_disposed := True\<rparr>) (unlink n s1))"
  from d Suc r have e: "exec E j ctx (DisposeAll (n_children (nodes s1 n))) ?s2 = (Inr v, s')"
    by (auto split: if_splits)
  have wa: "wf ?sa" using w by (auto simp: wf_def)
  from exec_grown[OF r] grown_refl[OF wa] have g: "grown ?sa s1" by simp
  then have w1: "wf s1" and st: "stable ?sa s1" and k1: "kids ?sa s1"
    by (auto simp: grown_def)
  from w1 have "\<forall>c\<in>set (n_children (nodes s1 n)). c < next_node ?s2"
    by (auto dest: wf_lt)
  from disposeAll_post[OF e this]
  have post: "\<forall>c\<in>set (n_children (nodes s1 n)). n_disposed (nodes s' c)" .
  show ?thesis
  proof
    fix c assume c: "c \<in> set (n_children (nodes s n))"
    with w have c0: "c < next_node s" by (auto dest: wf_lt)
    from k1 n c have "c \<in> set (n_children (nodes s1 n)) \<or> n_disposed (nodes s1 c)"
      by (auto simp: kids_def split: if_splits)
    then show "n_disposed (nodes s' c)"
    proof
      assume "c \<in> set (n_children (nodes s1 n))"
      with post show ?thesis by simp
    next
      assume "n_disposed (nodes s1 c)"
      then have "n_disposed (nodes ?s2 c)" by auto
      moreover from st c0 have "c < next_node ?s2" by (simp add: stable_def)
      ultimately show ?thesis using exec_stable'[OF e] by (auto simp: stable_def)
    qed
  qed
qed

lemma createEffect_handle:
  assumes "createEffect E k ctx effect opts s = (Inr stop, s1)"
  shows "stop = (if dev E then StopEffect (next_node s) else BoundDispose (next_node s) True)"
  using assms
  by (cases k) (auto simp: createComputation_def Let_def split: prod.splits sum.splits)

text \<open>
  C9. The node of an effect holds \<open>Null\<close> when \<^verbatim>\<open>createEffect\<close> returns, and every later
  execution of that node (a recompute from any later state) returns \<open>Null\<close> and stores
  \<open>Null\<close>, whatever the effect function returns.
\<close>

theorem effect_node_value_null:
  assumes ce: "createEffect E k ctx effect opts s = (Inr stop, s1)"
    and fresh: "Some (next_node s) \<notin> set ctx"
  shows "n_value (nodes s1 (next_node s)) = Null
     \<and> (\<forall>j ctx' s2 v s3.
           stable s1 s2 \<and> exec E j ctx' (RecomputeN (next_node s)) s2 = (Inr v, s3)
           \<longrightarrow> v = Null \<and> n_value (nodes s3 (next_node s)) = Null)"
proof -
  let ?n = "next_node s"
  let ?o = "if dev E then Some (effect_options opts) else None"
  obtain sa where cc: "createComputation Null (Some (RunEffect effect)) ?o ctx s = (?n, sa)"
    by (simp add: createComputation_def Let_def)
  let ?sb = "upd_node ?n (\<lambda>x. x\<lparr>n_effect := True\<rparr>) sa"
  have fr: "nodes sa ?n = fresh_node Null (Some (RunEffect effect)) ?o"
    using fresh cc by (auto simp: createComputation_def Let_def split: list.splits option.splits)
  have nb: "?n < next_node ?sb"
    using cc by (auto simp: createComputation_def Let_def split: list.splits option.splits)
  have cb: "n_compute (nodes ?sb ?n) = Some (RunEffect effect)"
    using fr by (simp add: fresh_node_def)
  from ce obtain k1 where k: "k = Suc k1" by (cases k) auto
  from ce k cc obtain u where rd: "read E k1 ctx ?n ?sb = (Inr u, s1)"
    by (auto split: prod.splits sum.splits)
  from rd fr fresh obtain k2 w sx where
    rc: "exec E k2 ctx (RecomputeN ?n) ?sb = (Inr w, sx)" and s1: "s1 = track ctx ?n sx"
    by (cases k1) (auto simp: fresh_node_def split: prod.splits sum.splits)
  from recompute_effect_Null[OF cb nb rc] s1 have first: "n_value (nodes s1 ?n) = Null"
    by simp
  from exec_stable'[OF rc] cb nb s1 have c1: "n_compute (nodes s1 ?n) = Some (RunEffect effect)"
    and n1: "?n < next_node s1"
    by (auto simp: stable_def)
  have later: "v = Null \<and> n_value (nodes s3 ?n) = Null"
    if st: "stable s1 s2" and r: "exec E j ctx' (RecomputeN ?n) s2 = (Inr v, s3)"
    for j ctx' s2 v s3
  proof -
    from st c1 n1 have "n_compute (nodes s2 ?n) = Some (RunEffect effect)" "?n < next_node s2"
      by (auto simp: stable_def)
    from recompute_effect_Null[OF this r] show ?thesis by simp
  qed
  from first later show ?thesis by blast
qed

theorem effect_node_value_null_witness:
  "fst (createEffect example_env (Suc (Suc (Suc (Suc (Suc (Suc (Suc 0))))))) [] (Closure 0 []) None
         init_state) = Inr (BoundDispose 0 True)
   \<and> Some (next_node init_state) \<notin> set []
   \<and> n_value (nodes (snd (createEffect example_env (Suc (Suc (Suc (Suc (Suc (Suc (Suc 0))))))) []
                             (Closure 0 []) None init_state)) (next_node init_state)) = Null"
proof -
  have n: "Some (next_node init_state) \<notin> set []" by simp
  have f: "fst (createEffect example_env (Suc (Suc (Suc (Suc (Suc (Suc (Suc 0))))))) [] (Closure 0 []) None
         init_state) = Inr (BoundDispose 0 True)"
    by (subst createEffect_unfold) (simp_all add: before_effect_def)
  then have ce: "createEffect example_env (Suc (Suc (Suc (Suc (Suc (Suc (Suc 0))))))) [] (Closure 0 []) None
         init_state = (Inr (BoundDispose 0 True),
           snd (createEffect example_env (Suc (Suc (Suc (Suc (Suc (Suc (Suc 0))))))) [] (Closure 0 []) None
         init_state))"
    by (simp add: prod_eq_iff del: exec.simps)
  from effect_node_value_null[OF ce n] f n show ?thesis by (simp del: exec.simps)
qed

section \<open>The stop handle\<close>

text \<open>
  C10. The handle \<^verbatim>\<open>createEffect\<close> returns, called in any state with any arguments, is
  \<^verbatim>\<open>dispose\<close> of the effect's node with \<open>disposeChildrenToo = True\<close>, in both build
  modes. When the call succeeds, the node and every child it owned when the handle
  was called are disposed.
\<close>

theorem stop_disposes_children:
  assumes ce: "createEffect E k ctx effect opts s = (Inr stop, s1)"
  shows "call E (Suc j) ctx' stop args s2
           = dispose E j ctx' (next_node s) True (emit (Invoke stop args) s2)
     \<and> (wf s2 \<and> next_node s < next_node s2 \<and> call E j ctx' stop args s2 = (Inr v, s3)
          \<longrightarrow> n_disposed (nodes s3 (next_node s))
              \<and> (\<forall>c\<in>set (n_children (nodes s2 (next_node s))). n_disposed (nodes s3 c)))"
proof -
  note h = createEffect_handle[OF ce]
  have a: "call E (Suc i) ctx' stop args s2
           = dispose E i ctx' (next_node s) True (emit (Invoke stop args) s2)" for i
    using h by (auto split: if_splits)
  have b: "n_disposed (nodes s3 (next_node s))
              \<and> (\<forall>c\<in>set (n_children (nodes s2 (next_node s))). n_disposed (nodes s3 c))"
    if w: "wf s2" and n: "next_node s < next_node s2"
      and c: "call E j ctx' stop args s2 = (Inr v, s3)"
  proof (cases j)
    case 0
    with c show ?thesis by simp
  next
    case (Suc i)
    let ?se = "emit (Invoke stop args) s2"
    from c Suc a[of i] have d: "dispose E i ctx' (next_node s) True ?se = (Inr v, s3)" by simp
    have we: "wf ?se" using w by (simp add: wf_def)
    from n have ne: "next_node s < next_node ?se" by simp
    from dispose_post[OF d ne] dispose_children_post[OF d ne we] show ?thesis by simp
  qed
  from a b show ?thesis by blast
qed

theorem stop_disposes_children_witness:
  "fst (createEffect example_env (Suc (Suc (Suc (Suc (Suc (Suc (Suc (Suc (Suc (Suc (Suc (Suc (Suc (Suc 0))))))))))))))
          [] (Closure (Suc (Suc 0)) []) None init_state) = Inr (BoundDispose 0 True)
   \<and> n_children (nodes (snd (createEffect example_env
          (Suc (Suc (Suc (Suc (Suc (Suc (Suc (Suc (Suc (Suc (Suc (Suc (Suc (Suc 0))))))))))))))
          [] (Closure (Suc (Suc 0)) []) None init_state)) 0) = [Suc 0]
   \<and> fst (call example_env (Suc (Suc (Suc (Suc (Suc (Suc 0)))))) [] (BoundDispose 0 True) []
         (snd (createEffect example_env
          (Suc (Suc (Suc (Suc (Suc (Suc (Suc (Suc (Suc (Suc (Suc (Suc (Suc (Suc 0))))))))))))))
          [] (Closure (Suc (Suc 0)) []) None init_state))) = Inr Undefined
   \<and> n_disposed (nodes (snd (call example_env (Suc (Suc (Suc (Suc (Suc (Suc 0)))))) []
         (BoundDispose 0 True) []
         (snd (createEffect example_env
          (Suc (Suc (Suc (Suc (Suc (Suc (Suc (Suc (Suc (Suc (Suc (Suc (Suc (Suc 0))))))))))))))
          [] (Closure (Suc (Suc 0)) []) None init_state)))) (Suc 0))"
proof -
  define k where "k = Suc (Suc (Suc (Suc (Suc (Suc (Suc (Suc (Suc (Suc (Suc (Suc (Suc (Suc 0)))))))))))))"
  define s1 where "s1 = snd (createEffect example_env k [] (Closure (Suc (Suc 0)) []) None init_state)"
  define j where "j = Suc (Suc (Suc (Suc (Suc (Suc 0)))))"
  define s3 where "s3 = snd (call example_env j [] (BoundDispose 0 True) [] s1)"
  have f: "fst (createEffect example_env k [] (Closure (Suc (Suc 0)) []) None init_state)
      = Inr (BoundDispose 0 True)"
    unfolding k_def
    by (subst createEffect_unfold) (simp_all add: before_effect_def createComputation_def
        fresh_node_def Let_def detach_def)
  then have ce: "createEffect example_env k [] (Closure (Suc (Suc 0)) []) None init_state
      = (Inr (BoundDispose 0 True), s1)"
    by (simp add: prod_eq_iff s1_def del: exec.simps)
  have ch: "n_children (nodes s1 0) = [Suc 0]"
    unfolding s1_def k_def
    by (subst createEffect_unfold) (simp_all add: before_effect_def after_effect_def createComputation_def
        fresh_node_def Let_def detach_def track_def)
  have w: "wf s1" using exec_wf[OF ce] by simp
  have nn: "next_node init_state < next_node s1"
    using wf_lt[OF w, of "Suc 0" 0] ch by simp
  have d: "fst (call example_env j [] (BoundDispose 0 True) [] s1) = Inr Undefined"
    unfolding s1_def k_def j_def
    by (subst createEffect_unfold) (simp_all add: before_effect_def after_effect_def createComputation_def
        fresh_node_def Let_def detach_def track_def unlink_def)
  then have c: "call example_env j [] (BoundDispose 0 True) [] s1 = (Inr Undefined, s3)"
    by (simp add: prod_eq_iff s3_def del: exec.simps)
  from stop_disposes_children[OF ce, of "j" "[]" "[]" s1 Undefined s3] w nn c ch
  have "n_disposed (nodes s3 (Suc 0))" by (simp del: exec.simps)
  with f ch d show ?thesis
    unfolding s3_def s1_def k_def j_def by (simp del: exec.simps)
qed

section \<open>The return value of an effect as its cleanup\<close>





section \<open>A write flushes\<close>


lemma flushing_prims [simp]:
  "flushing (track ctx n s) = flushing s"
  "flushing (onDispose f ctx s) = flushing s"
  "flushing (detach n s) = flushing s"
  "flushing (unlink n s) = flushing s"
  "flushing (snd (createComputation v c opts ctx s)) = flushing s"
  by (simp_all add: track_def onDispose_def detach_def unlink_def createComputation_def Let_def
      split: list.splits option.splits)






lemma stale_prims [simp]:
  "n_stale (nodes (track ctx n s) m) = n_stale (nodes s m)"
  "n_stale (nodes (onDispose f ctx s) m) = n_stale (nodes s m)"
  "n_stale (nodes (detach n s) m) = n_stale (nodes s m)"
  "n_stale (nodes (unlink n s) m) = n_stale (nodes s m)"
  by (simp_all add: track_def onDispose_def detach_def unlink_def nodes_fold_upd[where P=n_stale]
      split: list.splits option.splits)

lemma pending_prims [simp]:
  "pending (track ctx n s) = pending s"
  "pending (onDispose f ctx s) = pending s"
  "pending (detach n s) = pending s"
  "pending (unlink n s) = pending s"
  by (simp_all add: track_def onDispose_def detach_def unlink_def
      split: list.splits option.splits)

lemma served_prims [simp]:
  "served e s0 (track ctx n s) = served e s0 s"
  "served e s0 (onDispose f ctx s) = served e s0 s"
  "served e s0 (detach n s) = served e s0 s"
  "served e s0 (unlink n s) = served e s0 s"
  "served e s0 (s\<lparr>flushing := b\<rparr>) = served e s0 s"
  "served e s0 (s\<lparr>next_ref := r\<rparr>) = served e s0 s"
  "served e s0 (s\<lparr>keyToChild := kc\<rparr>) = served e s0 s"
  by (simp_all add: served_def owed_def)

lemma served_upd_node [simp]:
  "(\<And>x. n_compute (f x) = n_compute x \<and> n_disposed (f x) = n_disposed x
          \<and> n_stale (f x) = n_stale x)
     \<Longrightarrow> served e s0 (upd_node n f s) = served e s0 s"
  by (auto simp: served_def owed_def stable_def)


lemma served_emit [simp, intro]: "served e s0 s \<Longrightarrow> served e s0 (emit ev s)"
  by (auto simp: served_def owed_def)

lemma served_dispose [simp, intro]:
  "served e s0 s \<Longrightarrow> served e s0 (upd_node n (\<lambda>x. x\<lparr>n_disposed := True\<rparr>) s)"
  by (auto simp: served_def owed_def stable_def)









section \<open>\<^verbatim>\<open>createEffect\<close> runs the effect once\<close>

text \<open>
  C5. \<^verbatim>\<open>createEffect\<close> calls the effect function exactly once before it returns: the
  events of the whole \<^verbatim>\<open>createEffect\<close> are the execution of the new node, one
  invocation of the effect function, and the events of that one call, with nothing
  after it (the log when \<^verbatim>\<open>createEffect\<close> returns is the log when that call
  returned), and the node is not executed a second time. The handle is returned
  when the call has returned; a call that fails makes \<^verbatim>\<open>createEffect\<close> fail with the
  same error. For a user function the call runs its body. (The fuel is enough to
  reach the call; the new node is not one of the active computations.)
\<close>

theorem createEffect_runs_once:
  assumes fresh: "Some (next_node s) \<notin> set ctx"
    and fn: "isFunction effect"
    and c: "call E (Suc k) (Some (next_node s) # ctx) effect [] (before_effect E ctx effect opts s) = (rb, sb)"
    and ce: "createEffect E (Suc (Suc (Suc (Suc (Suc (Suc k)))))) ctx effect opts s = (r, s')"
  shows "(\<exists>new. log sb = log s @ Exec (next_node s) # Invoke effect [] # new
            \<and> log s' = log s @ Exec (next_node s) # Invoke effect [] # new
            \<and> Exec (next_node s) \<notin> set new)
     \<and> r = (case rb of Inl e \<Rightarrow> Inl e
            | Inr res \<Rightarrow> Inr (if dev E then StopEffect (next_node s) else BoundDispose (next_node s) True))
     \<and> s' = (case rb of Inl e \<Rightarrow> sb | Inr res \<Rightarrow> after_effect (next_node s) ctx res sb)
     \<and> (\<forall>c captured. effect = Closure c captured \<longrightarrow>
           run E k (Some (next_node s) # ctx) (funs E c captured [])
             (emit (Invoke effect []) (before_effect E ctx effect opts s)) = (rb, sb))"
proof -
  from call_emits[OF c fn] obtain new where
    new: "log sb = (log s @ [Exec (next_node s)]) @ Invoke effect [] # new"
      "Exec (next_node s) \<notin> set new"
    by auto
  from ce c have r: "r = (case rb of Inl e \<Rightarrow> Inl e
            | Inr res \<Rightarrow> Inr (if dev E then StopEffect (next_node s) else BoundDispose (next_node s) True))"
    and s': "s' = (case rb of Inl e \<Rightarrow> sb | Inr res \<Rightarrow> after_effect (next_node s) ctx res sb)"
    unfolding createEffect_unfold[OF fresh] by (auto split: sum.splits)
  from s' have l: "log s' = log sb" by (auto split: sum.splits)
  have b: "\<forall>c captured. effect = Closure c captured \<longrightarrow>
           run E k (Some (next_node s) # ctx) (funs E c captured [])
             (emit (Invoke effect []) (before_effect E ctx effect opts s)) = (rb, sb)"
    using c by auto
  from new l r s' b show ?thesis by simp
qed

lemma example_signal_facts:
  "next_node (snd (createSignal (Num 1) None [] init_state)) = Suc 0"
  "log (snd (createSignal (Num 1) None [] init_state)) = []"
  "Some (next_node (snd (createSignal (Num 1) None [] init_state))) \<notin> set []"
  by (simp_all add: createSignal_def createComputation_def Let_def)

lemma example_effect_call:
  "call example_env (Suc (Suc (Suc (Suc 0)))) [Some (Suc 0)] (Closure (Suc (Suc (Suc 0))) []) []
        (before_effect example_env [] (Closure (Suc (Suc (Suc 0))) []) None
           (snd (createSignal (Num 1) None [] init_state)))
     = (Inr (Num 1), snd (call example_env (Suc (Suc (Suc (Suc 0)))) [Some (Suc 0)] (Closure (Suc (Suc (Suc 0))) []) []
        (before_effect example_env [] (Closure (Suc (Suc (Suc 0))) []) None
           (snd (createSignal (Num 1) None [] init_state)))))"
  by (simp add: prod_eq_iff before_effect_def createSignal_def createComputation_def
        fresh_node_def Let_def detach_def track_def)

lemma example_effect_run:
  "createEffect example_env (Suc (Suc (Suc (Suc (Suc (Suc (Suc (Suc (Suc 0))))))))) []
            (Closure (Suc (Suc (Suc 0))) []) None (snd (createSignal (Num 1) None [] init_state))
     = (Inr (BoundDispose (Suc 0) True), example_graph)"
  unfolding example_graph_def
  by (subst createEffect_unfold;
      simp add: prod_eq_iff before_effect_def after_effect_def createSignal_def createComputation_def
        fresh_node_def Let_def detach_def track_def)+

theorem createEffect_runs_once_witness:
  "Some (next_node (snd (createSignal (Num 1) None [] init_state))) \<notin> set []
   \<and> isFunction (Closure (Suc (Suc (Suc 0))) [])
   \<and> createEffect example_env (Suc (Suc (Suc (Suc (Suc (Suc (Suc (Suc (Suc 0))))))))) []
            (Closure (Suc (Suc (Suc 0))) []) None (snd (createSignal (Num 1) None [] init_state))
       = (Inr (BoundDispose (Suc 0) True), example_graph)
   \<and> log example_graph = [Exec (Suc 0), Invoke (Closure (Suc (Suc (Suc 0))) []) [], Invoke (BoundRead 0) []]
   \<and> count_list (log example_graph) (Invoke (Closure (Suc (Suc (Suc 0))) []) []) = Suc 0"
proof -
  note f = example_signal_facts
  let ?sb = "snd (call example_env (Suc (Suc (Suc (Suc 0)))) [Some (Suc 0)] (Closure (Suc (Suc (Suc 0))) []) []
        (before_effect example_env [] (Closure (Suc (Suc (Suc 0))) []) None
           (snd (createSignal (Num 1) None [] init_state))))"
  have "\<exists>new. log ?sb = Exec (Suc 0) # Invoke (Closure (Suc (Suc (Suc 0))) []) [] # new
         \<and> log example_graph = Exec (Suc 0) # Invoke (Closure (Suc (Suc (Suc 0))) []) [] # new"
    using createEffect_runs_once[where s="snd (createSignal (Num 1) None [] init_state)" and ctx="[]"
        and effect="Closure (Suc (Suc (Suc 0))) []" and E=example_env and k="Suc (Suc (Suc 0))"
        and opts=None and rb="Inr (Num 1)" and sb="?sb" and r="Inr (BoundDispose (Suc 0) True)"
        and s'=example_graph]
      example_effect_call example_effect_run
    by (simp add: f del: exec.simps) blast
  then obtain new where
    a: "log ?sb = Exec (Suc 0) # Invoke (Closure (Suc (Suc (Suc 0))) []) [] # new"
    and b: "log example_graph = Exec (Suc 0) # Invoke (Closure (Suc (Suc (Suc 0))) []) [] # new"
    by blast
  have "log ?sb = [Exec (Suc 0), Invoke (Closure (Suc (Suc (Suc 0))) []) [], Invoke (BoundRead 0) []]"
    by (simp add: before_effect_def createSignal_def createComputation_def
        fresh_node_def Let_def detach_def track_def)
  with a have "new = [Invoke (BoundRead 0) []]" by simp
  with b f example_effect_run show ?thesis by simp
qed

section \<open>The cleanup list of an effect node\<close>







section \<open>Effects observing a written signal\<close>


lemma marked_prims [simp]:
  "marked e s0 (track ctx n s) = marked e s0 s"
  "marked e s0 (onDispose f ctx s) = marked e s0 s"
  "marked e s0 (detach n s) = marked e s0 s"
  "marked e s0 (unlink n s) = marked e s0 s"
  "marked e s0 (s\<lparr>flushing := b\<rparr>) = marked e s0 s"
  "marked e s0 (s\<lparr>pending := p\<rparr>) = marked e s0 s"
  "marked e s0 (s\<lparr>next_ref := r\<rparr>) = marked e s0 s"
  "marked e s0 (s\<lparr>keyToChild := kc\<rparr>) = marked e s0 s"
  by (simp_all add: marked_def)

lemma marked_upd_node [simp]:
  "(\<And>x. n_disposed (f x) = n_disposed x) \<Longrightarrow> marked e s0 (upd_node n f s) = marked e s0 s"
  by (auto simp: marked_def)

lemma marked_emit [simp, intro]: "marked e s0 s \<Longrightarrow> marked e s0 (emit ev s)"
  by (auto simp: marked_def)

lemma marked_dispose [simp, intro]:
  "marked e s0 s \<Longrightarrow> marked e s0 (emit (Disposed n) (upd_node n (\<lambda>x. x\<lparr>n_disposed := True\<rparr>) s))"
  by (auto simp: marked_def)















end
